theory Spec2Isabelle
  imports Complex_Main "HOL-Library.Sublist"
begin

section \<open>Data model of the PDF text extraction (src/services/geminiService.ts)\<close>

text \<open>
  A JavaScript string is a sequence of UTF-16 code units; \<open>length\<close>, indexing, \<open>trim\<close>
  and the regular expressions of the source (none has the \<open>u\<close> flag) all work on code
  units. A code unit is modelled as a natural number, a string as a list of them.
  \<open>js\<close> turns an ASCII literal into its code units.

  The numbers of the source are IEEE 754 doubles. A double is modelled as the real number
  it denotes, and every arithmetic operation of the source (\<open>+\<close>, \<open>-\<close>, \<open>*\<close>, \<open>/\<close>) as the
  exact operation followed by \<open>fl\<close>, the rounding to the nearest double with ties to
  even. A numeric literal of the source that is not a double itself (\<open>0.4\<close>) is rounded
  as well. Comparisons and \<open>Math.abs\<close> are exact on doubles. Outside the model are
  infinities and NaN: inputs that are not finite, and results whose magnitude reaches
  \<open>2^1024\<close>, which the source's arithmetic turns into an infinity. The one place where
  the source uses \<open>-Infinity\<close> (as the "no previous item" marker) is modelled by \<open>None\<close>.
\<close>

type_synonym jsstring = "nat list"

definition js :: "string \<Rightarrow> jsstring" where
  "js s = map of_char s"

text \<open>
  \<open>PdfTextItem\<close>: the fields of the source's interface that the extraction reads.
  \<open>tx\<close> is \<open>transform[4]\<close> (the x origin), \<open>ty\<close> is \<open>transform[5]\<close> (the y origin).
\<close>

record PdfTextItem =
  str :: jsstring
  width :: real
  tx :: real
  ty :: real

datatype LineType = CHORD | LYRIC | UNKNOWN

record ClassifiedLine =
  y :: real
  items :: "PdfTextItem list"
  type :: LineType

text \<open>
  The two ways the extraction can throw: the explicit
  \<open>Error(`Couldn't find placement for "${chord.text}"`)\<close>, which carries the chord's text,
  and the \<open>ReferenceError\<close> of reading an identifier that is declared nowhere.
\<close>

datatype error = PlacementError jsstring | ReferenceError string

section \<open>Double arithmetic\<close>

text \<open>
  Rounding to nearest, ties to even, for binary64. A non-zero real \<open>x\<close> with
  \<open>2^e \<le> |x| < 2^(e+1)\<close> lies in the binade \<open>e\<close>; the doubles of that binade are the
  integer multiples of \<open>2^(e-52)\<close> (a 53-bit significand). Below \<open>2^(-1022)\<close> the
  spacing stays \<open>2^(-1074)\<close> (gradual underflow), so the binade is taken to be at least
  \<open>-1022\<close>. \<open>fl x\<close> is the multiple of that spacing nearest to \<open>x\<close>, the one with the
  even multiplier when \<open>x\<close> lies halfway.
\<close>

definition round_even :: "real \<Rightarrow> int" where
  "round_even r =
     (let f = \<lfloor>r\<rfloor>
      in if r - of_int f < 1 / 2 then f
         else if r - of_int f > 1 / 2 then f + 1
         else if even f then f else f + 1)"

definition binade :: "real \<Rightarrow> int" where
  "binade x = max \<lfloor>log 2 \<bar>x\<bar>\<rfloor> (- 1022)"

definition quantum :: "real \<Rightarrow> real" where
  "quantum x = 2 powr (of_int (binade x - 52))"

definition fl :: "real \<Rightarrow> real" where
  "fl x = (if x = 0 then 0 else of_int (round_even (x / quantum x)) * quantum x)"

section \<open>Token merger: \<open>mergeAdjacentTextItems\<close>\<close>

text \<open>\<open>str.length || 1\<close>: the length, or 1 when the length is 0.\<close>

definition lengthOr1 :: "jsstring \<Rightarrow> real" where
  "lengthOr1 s = (if length s = 0 then 1 else real (length s))"

text \<open>
  The \<open>for\<close> loop of lines 136--152: \<open>merged\<close> is the output array, \<open>currentItem\<close> the
  accumulator, the third argument the fragments \<open>sortedItems[i..]\<close> still to visit.
\<close>

fun merge_loop :: "PdfTextItem list \<Rightarrow> PdfTextItem \<Rightarrow> PdfTextItem list \<Rightarrow> PdfTextItem list" where
  "merge_loop merged currentItem [] = merged @ [currentItem]"
| "merge_loop merged currentItem (nextItem # rest) =
     (let currentItemEndX = fl (tx currentItem + width currentItem);
          nextItemStartX = tx nextItem;
          gap = fl (nextItemStartX - currentItemEndX);
          MERGE_THRESHOLD = fl (fl (width currentItem / lengthOr1 (str currentItem)) * 0.5)
      in if gap \<ge> - 2 \<and> gap < MERGE_THRESHOLD
         then merge_loop merged
                (currentItem\<lparr>str := str currentItem @ str nextItem,
                              width := fl (fl (tx nextItem + width nextItem) - tx currentItem)\<rparr>) rest
         else merge_loop (merged @ [currentItem]) nextItem rest)"

text \<open>
  \<open>Array.prototype.sort\<close> is stable, and so is \<open>sort_key\<close> (an insertion sort that puts
  an element before the equal ones already placed, working from the right). The
  comparator \<open>a.transform[4] - b.transform[4]\<close> is used for its sign only, and the
  rounded difference of two doubles has the sign of the exact difference (with gradual
  underflow it is zero only when they are equal), so the sort orders by the key.
\<close>

definition mergeAdjacentTextItems :: "PdfTextItem list \<Rightarrow> PdfTextItem list" where
  "mergeAdjacentTextItems its =
     (if length its < 2 then its
      else (case sort_key tx its of
              [] \<Rightarrow> []
            | first # rest \<Rightarrow> merge_loop [] first rest))"

section \<open>String primitives of JavaScript\<close>

text \<open>
  \<open>String.prototype.trim\<close> and \<open>trimEnd\<close> remove WhiteSpace and LineTerminator code
  points: TAB, LF, VT, FF, CR, SPACE, NBSP, U+1680, U+2000..U+200A, U+2028, U+2029, U+202F,
  U+205F, U+3000 and U+FEFF.
\<close>

definition isWhiteSpace :: "nat \<Rightarrow> bool" where
  "isWhiteSpace c \<longleftrightarrow>
     (9 \<le> c \<and> c \<le> 13) \<or> c = 32 \<or> c = 160 \<or> c = 5760 \<or> (8192 \<le> c \<and> c \<le> 8202) \<or>
     c = 8232 \<or> c = 8233 \<or> c = 8239 \<or> c = 8287 \<or> c = 12288 \<or> c = 65279"

definition trimStart :: "jsstring \<Rightarrow> jsstring" where
  "trimStart s = dropWhile isWhiteSpace s"

definition trimEnd :: "jsstring \<Rightarrow> jsstring" where
  "trimEnd s = rev (dropWhile isWhiteSpace (rev s))"

definition trim :: "jsstring \<Rightarrow> jsstring" where
  "trim s = trimEnd (trimStart s)"

section \<open>Regular expressions of the source\<close>

text \<open>
  \<open>RegExp.prototype.test\<close> on a pattern anchored at both ends answers whether some way of
  matching consumes the whole string; backtracking tries every alternative, so the answer
  is membership in the pattern's language. A matcher maps an input to the list of all
  remainders that a match of a prefix can leave (in the order backtracking tries them),
  and the anchored test asks whether the empty remainder is among them.
\<close>

type_synonym matcher = "jsstring \<Rightarrow> jsstring list"

definition re_lit :: "jsstring \<Rightarrow> matcher" where
  "re_lit l inp = (if prefix l inp then [drop (length l) inp] else [])"

definition re_class :: "(nat \<Rightarrow> bool) \<Rightarrow> matcher" where
  "re_class p inp = (case inp of [] \<Rightarrow> [] | c # cs \<Rightarrow> if p c then [cs] else [])"

definition re_alt :: "matcher list \<Rightarrow> matcher" where
  "re_alt ms inp = concat (map (\<lambda>m. m inp) ms)"

definition re_seq :: "matcher \<Rightarrow> matcher \<Rightarrow> matcher" where
  "re_seq m1 m2 inp = concat (map m2 (m1 inp))"

definition re_opt :: "matcher \<Rightarrow> matcher" where
  "re_opt m inp = m inp @ [inp]"

fun re_star_class :: "(nat \<Rightarrow> bool) \<Rightarrow> matcher" where
  "re_star_class p [] = [[]]"
| "re_star_class p (c # cs) = (if p c then re_star_class p cs @ [c # cs] else [c # cs])"

definition re_plus_class :: "(nat \<Rightarrow> bool) \<Rightarrow> matcher" where
  "re_plus_class p inp = (case inp of [] \<Rightarrow> [] | c # cs \<Rightarrow> if p c then re_star_class p cs else [])"

definition re_test :: "matcher \<Rightarrow> jsstring \<Rightarrow> bool" where
  "re_test m s \<longleftrightarrow> [] \<in> set (m s)"

definition isAtoG :: "nat \<Rightarrow> bool" where
  "isAtoG c \<longleftrightarrow> of_char CHR ''A'' \<le> c \<and> c \<le> of_char CHR ''G''"

definition isDigit :: "nat \<Rightarrow> bool" where
  "isDigit c \<longleftrightarrow> of_char CHR ''0'' \<le> c \<and> c \<le> of_char CHR ''9''"

definition isHtoZ :: "nat \<Rightarrow> bool" where
  "isHtoZ c \<longleftrightarrow> (of_char CHR ''h'' \<le> c \<and> c \<le> of_char CHR ''z'') \<or>
                (of_char CHR ''H'' \<le> c \<and> c \<le> of_char CHR ''Z'')"

text \<open>\<open>(##|#|b|bb)\<close>\<close>

definition accidental :: matcher where
  "accidental = re_alt [re_lit (js ''##''), re_lit (js ''#''), re_lit (js ''b''), re_lit (js ''bb'')]"

text \<open>
  The quality group \<open>(maj|M|m|min|-|aug|\+|dim|DEGREE|sus|add|m7b5|OSTROKE)\<close>, where
  \<open>DEGREE\<close> stands for the degree sign, the code unit U+00B0 (176), and \<open>OSTROKE\<close> for
  the small o with stroke, the code unit U+00F8 (248).
\<close>

definition quality :: matcher where
  "quality = re_alt [re_lit (js ''maj''), re_lit (js ''M''), re_lit (js ''m''), re_lit (js ''min''),
     re_lit (js ''-''), re_lit (js ''aug''), re_lit (js ''+''), re_lit (js ''dim''), re_lit [176],
     re_lit (js ''sus''), re_lit (js ''add''), re_lit (js ''m7b5''), re_lit [248]]"

text \<open>
  \<open>/^[A-G](##|#|b|bb)?(maj|...)?[0-9]*(sus[0-9])?(\(?(b|#)[0-9]+\)?)?(\/[A-G](##|#|b|bb)?)?$/\<close>
\<close>

definition chordRegex :: matcher where
  "chordRegex =
     re_seq (re_class isAtoG)
    (re_seq (re_opt accidental)
    (re_seq (re_opt quality)
    (re_seq (re_star_class isDigit)
    (re_seq (re_opt (re_seq (re_lit (js ''sus'')) (re_class isDigit)))
    (re_seq (re_opt (re_seq (re_opt (re_lit (js ''('')))
                    (re_seq (re_alt [re_lit (js ''b''), re_lit (js ''#'')])
                    (re_seq (re_plus_class isDigit)
                            (re_opt (re_lit (js '')'')))))))
            (re_opt (re_seq (re_lit (js ''/''))
                    (re_seq (re_class isAtoG) (re_opt accidental)))))))))"

definition isChordToken :: "jsstring \<Rightarrow> bool" where
  "isChordToken text =
     (let trimmed = trim text
      in if trimmed = [] \<or> length trimmed > 15 then False
         else re_test chordRegex trimmed)"

text \<open>
  \<open>token.replace(/min|maj|aug|dim|sus|add|flat/ig, '')\<close>. Without the \<open>u\<close> flag the
  \<open>i\<close> flag compares the upper-case forms of single code units, and a code unit outside
  ASCII never equals an ASCII letter that way; so a pattern letter matches exactly its
  lower-case and its upper-case ASCII form. The scan goes left to right; at each position
  the first alternative that matches is removed and the scan resumes behind it.
\<close>

definition asciiUpper :: "nat \<Rightarrow> nat" where
  "asciiUpper c = (if of_char CHR ''a'' \<le> c \<and> c \<le> of_char CHR ''z'' then c - 32 else c)"

fun ci_prefix :: "jsstring \<Rightarrow> jsstring \<Rightarrow> bool" where
  "ci_prefix [] inp = True"
| "ci_prefix (k # ks) [] = False"
| "ci_prefix (k # ks) (c # cs) = (asciiUpper c = asciiUpper k \<and> ci_prefix ks cs)"

definition chordWords :: "jsstring list" where
  "chordWords = [js ''min'', js ''maj'', js ''aug'', js ''dim'', js ''sus'', js ''add'', js ''flat'']"

definition keyword_at :: "jsstring \<Rightarrow> jsstring option" where
  "keyword_at inp = find (\<lambda>k. ci_prefix k inp) chordWords"

fun strip_keywords :: "jsstring \<Rightarrow> jsstring" where
  "strip_keywords [] = []"
| "strip_keywords (c # cs) =
     (case keyword_at (c # cs) of
        Some k \<Rightarrow> strip_keywords (drop (length k - 1) cs)
      | None \<Rightarrow> c # strip_keywords cs)"

text \<open>
  \<open>/^\[.*\]$/\<close>: an opening bracket, any code units that are not line terminators
  (LF, CR, U+2028, U+2029), a closing bracket.
\<close>

definition isLineTerminator :: "nat \<Rightarrow> bool" where
  "isLineTerminator c \<longleftrightarrow> c = 10 \<or> c = 13 \<or> c = 8232 \<or> c = 8233"

definition bracketed :: "jsstring \<Rightarrow> bool" where
  "bracketed s \<longleftrightarrow>
     length s \<ge> 2 \<and> hd s = of_char CHR ''['' \<and> last s = of_char CHR '']'' \<and>
     \<not> list_ex isLineTerminator (butlast (tl s))"

section \<open>Line classifier: \<open>classifyLine\<close>\<close>

text \<open>\<open>lineItems.map(item => item.str.trim()).filter(Boolean)\<close>\<close>

definition tokens_of :: "PdfTextItem list \<Rightarrow> jsstring list" where
  "tokens_of lineItems = filter (\<lambda>t. t \<noteq> []) (map (\<lambda>item. trim (str item)) lineItems)"

text \<open>
  \<open>chordTokens.length / tokens.length\<close>. The quotient of two array lengths (below
  \<open>2^32\<close>) is compared with 0.7 and 0.2 only; a quotient \<open>k / n\<close> with \<open>n < 2^32\<close> that
  differs from \<open>7/10\<close> or \<open>2/10\<close> differs by at least \<open>1 / (10 n)\<close>, far more than the
  rounding of a double, so the comparisons of the source and of the exact quotient agree.
\<close>

definition chordRatio :: "jsstring list \<Rightarrow> real" where
  "chordRatio tokens = real (length (filter isChordToken tokens)) / real (length tokens)"

definition hasLyrics :: "jsstring list \<Rightarrow> bool" where
  "hasLyrics tokens = list_ex (\<lambda>token. list_ex isHtoZ (strip_keywords token)) tokens"

definition classifyLine :: "PdfTextItem list \<Rightarrow> LineType" where
  "classifyLine lineItems =
     (if length lineItems = 0 then UNKNOWN
      else let tokens = tokens_of lineItems
      in if length tokens = 0 then UNKNOWN
      else if chordRatio tokens > 0.7 then CHORD
      else if hasLyrics tokens then LYRIC
      else if chordRatio tokens > 0.2 then CHORD
      else if bracketed (trim (concat tokens)) then UNKNOWN
      else LYRIC)"

section \<open>Alignment reconstructor (the paired branch of \<open>extractTextFromPdf\<close>)\<close>

text \<open>
  PASS 2, lines 236--255: the loop over the lyric line's items. Its state is
  \<open>lyricString\<close>, \<open>indexToXMap\<close> and \<open>lastItemEndX\<close> (\<open>None\<close> for \<open>-Infinity\<close>).
\<close>

fun lyric_loop :: "jsstring \<Rightarrow> real list \<Rightarrow> real option \<Rightarrow> PdfTextItem list \<Rightarrow> jsstring \<times> real list" where
  "lyric_loop lyricString indexToXMap lastItemEndX [] = (lyricString, indexToXMap)"
| "lyric_loop lyricString indexToXMap lastItemEndX (item # rest) =
     (let itemStartX = tx item;
          avgCharWidthInItem = fl (width item / lengthOr1 (str item));
          (lyricString1, indexToXMap1) =
            (case lastItemEndX of
               None \<Rightarrow> (lyricString, indexToXMap)
             | Some l \<Rightarrow>
                 if fl (itemStartX - l) > fl (avgCharWidthInItem * fl 0.4)
                 then (lyricString @ js '' '', indexToXMap @ [fl (l + fl (fl (itemStartX - l) / 2))])
                 else (lyricString, indexToXMap))
      in lyric_loop (lyricString1 @ str item)
           (indexToXMap1 @
              map (\<lambda>c. fl (itemStartX + fl (real c * avgCharWidthInItem))) [0..<length (str item)])
           (Some (fl (itemStartX + width item))) rest)"

text \<open>
  Lines 261--266: \<open>while (indexToXMap[cursor] < chord.x) { cursor++; if (cursor ==
  indexToXMap.length) throw ... }\<close>. Reading the array out of range gives \<open>undefined\<close>,
  and \<open>undefined < x\<close> is false, so the loop also stops there. \<open>None\<close> is the throw.
\<close>

function advance_cursor :: "real list \<Rightarrow> nat \<Rightarrow> real \<Rightarrow> nat option" where
  "advance_cursor indexToXMap cursor x =
     (if cursor < length indexToXMap \<and> indexToXMap ! cursor < x
      then (if cursor + 1 = length indexToXMap then None
            else advance_cursor indexToXMap (cursor + 1) x)
      else Some cursor)"
  by pat_completeness auto
termination
  by (relation "measure (\<lambda>(m, cursor, x). length m - cursor)") auto

declare advance_cursor.simps [simp del]

text \<open>
  Lines 268--271: \<open>for (j = 0; j < chord.text.length; j++) { const targetIdx =
  closestCharIndex + j; chordLineChars[targetIdx] = chord.text[j]; }\<close>. The identifier
  \<open>closestCharIndex\<close> is declared nowhere in the file, so the first iteration throws a
  \<open>ReferenceError\<close> before anything is written; for an empty text the body never runs.
\<close>

definition write_chord :: "jsstring list \<Rightarrow> jsstring \<Rightarrow> error + jsstring list" where
  "write_chord chordLineChars text =
     (if length text = 0 then Inr chordLineChars
      else Inl (ReferenceError ''closestCharIndex''))"

text \<open>
  Lines 260--272: the loop over \<open>pass1_chords\<close>, the \<open>(text, x)\<close> pairs of the chord line.
  Its state is the buffer \<open>chordLineChars\<close> and \<open>lyricStringCursor\<close>.
\<close>

fun chord_loop :: "real list \<Rightarrow> jsstring list \<Rightarrow> nat \<Rightarrow> (jsstring \<times> real) list
    \<Rightarrow> error + (jsstring list \<times> nat)" where
  "chord_loop indexToXMap chordLineChars cursor [] = Inr (chordLineChars, cursor)"
| "chord_loop indexToXMap chordLineChars cursor ((text, x) # rest) =
     (case advance_cursor indexToXMap cursor x of
        None \<Rightarrow> Inl (PlacementError text)
      | Some cursor' \<Rightarrow>
          (case write_chord chordLineChars text of
             Inl e \<Rightarrow> Inl e
           | Inr chordLineChars' \<Rightarrow> chord_loop indexToXMap chordLineChars' cursor' rest))"

text \<open>
  Lines 232--276 for one couplet: the result is the pair of the emitted chord line
  (\<open>chordLineChars.join('').trimEnd()\<close>) and the emitted lyric line.
\<close>

definition reconstructCouplet :: "PdfTextItem list \<Rightarrow> PdfTextItem list \<Rightarrow> error + (jsstring \<times> jsstring)" where
  "reconstructCouplet chordItems lyricItems =
     (let pass1_chords = map (\<lambda>item. (str item, tx item)) chordItems;
          (lyricString, indexToXMap) = lyric_loop [] [] None lyricItems;
          chordLineChars = replicate (length lyricString) (js '' '')
      in case chord_loop indexToXMap chordLineChars 0 pass1_chords of
           Inl e \<Rightarrow> Inl e
         | Inr (chordLineChars', cursor) \<Rightarrow> Inr (trimEnd (concat chordLineChars'), lyricString))"

section \<open>Page and document assembler\<close>

text \<open>Lines 283--291: the rendering of a line that is not part of a couplet.\<close>

fun render_loop :: "jsstring \<Rightarrow> real option \<Rightarrow> PdfTextItem list \<Rightarrow> jsstring" where
  "render_loop lineText lastX [] = lineText"
| "render_loop lineText lastX (item # rest) =
     (let lineText1 =
            (case lastX of
               None \<Rightarrow> lineText
             | Some l \<Rightarrow>
                 if fl (tx item - l) > fl (width item / lengthOr1 (str item))
                 then lineText @ js '' '' else lineText)
      in render_loop (lineText1 @ str item) (Some (fl (tx item + width item))) rest)"

definition render_line :: "PdfTextItem list \<Rightarrow> jsstring" where
  "render_line lineItems = render_loop [] None lineItems"

text \<open>
  Line 226: \<open>currentLine.type === 'CHORD' && nextLine?.type === 'LYRIC' &&
  Math.abs(currentLine.y - nextLine.y) < 30\<close>, where \<open>nextLine\<close> is \<open>undefined\<close> behind
  the last line.
\<close>

definition isPair :: "ClassifiedLine list \<Rightarrow> nat \<Rightarrow> bool" where
  "isPair classifiedLines i \<longleftrightarrow>
     type (classifiedLines ! i) = CHORD \<and>
     (i + 1 < length classifiedLines \<and> type (classifiedLines ! (i + 1)) = LYRIC) \<and>
     \<bar>fl (y (classifiedLines ! i) - y (classifiedLines ! (i + 1)))\<bar> < 30"

definition newline :: jsstring where
  "newline = [10]"

text \<open>
  Lines 220--295: the loop over the lines of a page, with its index \<open>i\<close>, the set
  \<open>processedIndices\<close> and the text \<open>pageText\<close> assembled so far. A throw inside the
  couplet branch leaves the loop with the error.
\<close>

function page_loop :: "ClassifiedLine list \<Rightarrow> nat \<Rightarrow> nat set \<Rightarrow> jsstring \<Rightarrow> error + jsstring" where
  "page_loop classifiedLines i processedIndices pageText =
     (if i < length classifiedLines
      then (if i \<in> processedIndices
            then page_loop classifiedLines (i + 1) processedIndices pageText
            else if isPair classifiedLines i
            then (case reconstructCouplet (items (classifiedLines ! i))
                         (items (classifiedLines ! (i + 1))) of
                    Inl e \<Rightarrow> Inl e
                  | Inr (chordLineString, lyricString) \<Rightarrow>
                      page_loop classifiedLines (i + 1)
                        (insert (i + 1) (insert i processedIndices))
                        (pageText @ chordLineString @ newline @ lyricString @ newline))
            else page_loop classifiedLines (i + 1) (insert i processedIndices)
                   (pageText @ render_line (items (classifiedLines ! i)) @ newline))
      else Inr pageText)"
  by pat_completeness auto
termination
  by (relation "measure (\<lambda>(ls, i, P, t). length ls - i)") auto

declare page_loop.simps [simp del]

text \<open>
  Lines 195--207: the line grouper. \<open>rawLines\<close> is a \<open>Map\<close>, iterated in insertion
  order: an association list. An item joins the first line whose key is within
  \<open>Y_TOLERANCE = 5\<close> of its y; otherwise it opens a new line (its key is new, since an
  equal key would have been within the tolerance), which goes to the end.
\<close>

fun add_to_line :: "PdfTextItem \<Rightarrow> (real \<times> PdfTextItem list) list \<Rightarrow> (real \<times> PdfTextItem list) list option" where
  "add_to_line item [] = None"
| "add_to_line item ((k, its) # rawLines) =
     (if \<bar>fl (k - ty item)\<bar> < 5 then Some ((k, its @ [item]) # rawLines)
      else map_option (\<lambda>r. (k, its) # r) (add_to_line item rawLines))"

fun group_loop :: "(real \<times> PdfTextItem list) list \<Rightarrow> PdfTextItem list \<Rightarrow> (real \<times> PdfTextItem list) list" where
  "group_loop rawLines [] = rawLines"
| "group_loop rawLines (item # rest) =
     group_loop (case add_to_line item rawLines of
                   Some rawLines' \<Rightarrow> rawLines'
                 | None \<Rightarrow> rawLines @ [(ty item, [item])]) rest"

text \<open>
  Lines 209--214: the lines sorted by descending y (a stable sort on the negated key;
  the comparator \<open>b[0] - a[0]\<close> is again used for its sign only), the items of each
  line sorted by ascending x, each line classified.
\<close>

definition classify_lines :: "(real \<times> PdfTextItem list) list \<Rightarrow> ClassifiedLine list" where
  "classify_lines rawLines =
     map (\<lambda>(k, its). let sorted_items = sort_key tx its
                      in \<lparr>y = k, items = sorted_items, type = classifyLine sorted_items\<rparr>)
         (sort_key (\<lambda>(k, its). - k) rawLines)"

text \<open>
  Lines 186--296: one iteration of the loop over the pages; \<open>rawItems\<close> is what the PDF
  library returns for the page, \<open>fullText\<close> the document text assembled so far.
\<close>

definition process_page :: "jsstring \<Rightarrow> PdfTextItem list \<Rightarrow> error + jsstring" where
  "process_page fullText rawItems =
     (if length rawItems = 0 then Inr fullText
      else let allItems = mergeAdjacentTextItems rawItems
      in if length allItems = 0 then Inr fullText
      else (case page_loop (classify_lines (group_loop [] allItems)) 0 {} [] of
              Inl e \<Rightarrow> Inl e
            | Inr pageText \<Rightarrow> Inr (fullText @ pageText @ newline)))"

fun extract_loop :: "jsstring \<Rightarrow> PdfTextItem list list \<Rightarrow> error + jsstring" where
  "extract_loop fullText [] = Inr fullText"
| "extract_loop fullText (rawItems # pages) =
     (case process_page fullText rawItems of
        Inl e \<Rightarrow> Inl e
      | Inr fullText' \<Rightarrow> extract_loop fullText' pages)"

text \<open>
  Line 298: \<open>fullText.replace(/ \n/g, '\n').replace(/\n{3,}/g, '\n\n').trim()\<close>.
  The first replacement scans left to right and replaces each space that is directly
  followed by a newline, resuming behind the newline. The second matches wherever three
  newlines start, takes the whole run of newlines with it (the quantifier is greedy) and
  puts two newlines in its place; a text shorter than three code units has no match.
\<close>

fun strip_space_newline :: "jsstring \<Rightarrow> jsstring" where
  "strip_space_newline (c # d # cs) =
     (if c = 32 \<and> d = 10 then 10 # strip_space_newline cs
      else c # strip_space_newline (d # cs))"
| "strip_space_newline cs = cs"

function collapse_newlines :: "jsstring \<Rightarrow> jsstring" where
  "collapse_newlines (c # d # e # cs) =
     (if c = 10 \<and> d = 10 \<and> e = 10
      then 10 # 10 # collapse_newlines (dropWhile (\<lambda>x. x = 10) cs)
      else c # collapse_newlines (d # e # cs))"
| "collapse_newlines [] = []"
| "collapse_newlines [c] = [c]"
| "collapse_newlines [c, d] = [c, d]"
  by pat_completeness auto
termination
  by (relation "measure length") (auto intro: le_imp_less_Suc le_SucI length_dropWhile_le)

definition normalize_text :: "jsstring \<Rightarrow> jsstring" where
  "normalize_text fullText = trim (collapse_newlines (strip_space_newline fullText))"

text \<open>
  \<open>extractTextFromPdf\<close>, as a function of the pages' text items (the input the PDF
  library hands over): the normalized document text, or the error that was thrown.
\<close>

definition extractTextFromPdf :: "PdfTextItem list list \<Rightarrow> error + jsstring" where
  "extractTextFromPdf pages =
     (case extract_loop [] pages of
        Inl e \<Rightarrow> Inl e
      | Inr fullText \<Rightarrow> Inr (normalize_text fullText))"

section \<open>The pairing rule in the specification's words\<close>

text \<open>
  The specification describes the pair detector on the line sequence itself: two adjacent
  lines form a couplet iff the first is a Chord line, the second a Lyric line and their
  y-coordinates (doubles, in the specification's data model too) differ by less than 30
  in absolute value; pairing is greedy from the top, and a line
  consumed by a pair is not looked at again. \<open>spec_assemble\<close> is that description, as a
  recursion on the list of lines; it is compared below with the source's loop over an
  index and a set of processed indices.
\<close>

definition spec_couplet :: "ClassifiedLine \<Rightarrow> ClassifiedLine \<Rightarrow> bool" where
  "spec_couplet a b \<longleftrightarrow> type a = CHORD \<and> type b = LYRIC \<and> \<bar>fl (y a - y b)\<bar> < 30"

fun spec_assemble :: "ClassifiedLine list \<Rightarrow> error + jsstring" where
  "spec_assemble [] = Inr []"
| "spec_assemble [a] = Inr (render_line (items a) @ newline)"
| "spec_assemble (a # b # rest) =
     (if spec_couplet a b
      then (case reconstructCouplet (items a) (items b) of
              Inl e \<Rightarrow> Inl e
            | Inr (chordLineString, lyricString) \<Rightarrow>
                (case spec_assemble rest of
                   Inl e \<Rightarrow> Inl e
                 | Inr t \<Rightarrow> Inr (chordLineString @ newline @ lyricString @ newline @ t)))
      else (case spec_assemble (b # rest) of
              Inl e \<Rightarrow> Inl e
            | Inr t \<Rightarrow> Inr (render_line (items a) @ newline @ t)))"

section \<open>Properties of the rounding\<close>

text \<open>
  What the proofs below use of \<open>fl\<close>: it is monotone, it leaves every double in place
  (in particular every integer below \<open>2^53\<close> in magnitude, and every value it returns),
  and it keeps the sign.
\<close>

lemma round_even_int [simp]: "round_even (of_int n) = n"
  by (simp add: round_even_def)

lemma round_even_0 [simp]: "round_even 0 = 0"
  using round_even_int [of 0] by simp

lemma round_even_bounds: "\<lfloor>r\<rfloor> \<le> round_even r \<and> round_even r \<le> \<lfloor>r\<rfloor> + 1"
  by (simp add: round_even_def Let_def)

lemma round_even_mono: "r \<le> s \<Longrightarrow> round_even r \<le> round_even s"
proof -
  assume rs: "r \<le> s"
  then have fl: "\<lfloor>r\<rfloor> \<le> \<lfloor>s\<rfloor>" by (rule floor_mono)
  show ?thesis
  proof (cases "\<lfloor>r\<rfloor> = \<lfloor>s\<rfloor>")
    case True
    with rs show ?thesis by (auto simp: round_even_def Let_def)
  next
    case False
    with fl have "\<lfloor>r\<rfloor> + 1 \<le> \<lfloor>s\<rfloor>" by simp
    with round_even_bounds [of r] round_even_bounds [of s] show ?thesis by linarith
  qed
qed

lemma round_even_le: "r \<le> of_int n \<Longrightarrow> round_even r \<le> n"
  using round_even_mono [of r "of_int n"] by simp

lemma round_even_ge: "of_int n \<le> r \<Longrightarrow> n \<le> round_even r"
  using round_even_mono [of "of_int n" r] by simp

lemma quantum_pos [simp]: "0 < quantum x"
  by (simp add: quantum_def)

lemma quantum_nonneg [simp]: "0 \<le> quantum x"
  by (simp add: quantum_def)

lemma abs_quantum [simp]: "\<bar>quantum x\<bar> = quantum x"
  by (simp add: quantum_def)

lemma binade_ge: "- 1022 \<le> binade x"
  by (simp add: binade_def)

lemma abs_less_binade: "x \<noteq> 0 \<Longrightarrow> \<bar>x\<bar> < 2 powr (of_int (binade x + 1))"
proof -
  assume "x \<noteq> 0"
  then have pos: "0 < \<bar>x\<bar>" by simp
  have "\<lfloor>log 2 \<bar>x\<bar>\<rfloor> \<le> binade x" by (simp add: binade_def)
  then have "log 2 \<bar>x\<bar> < of_int (binade x + 1)" by linarith
  then show ?thesis using pos by (simp add: log_less_iff)
qed

lemma binade_le_abs: "x \<noteq> 0 \<Longrightarrow> - 1022 < binade x \<Longrightarrow> 2 powr (of_int (binade x)) \<le> \<bar>x\<bar>"
proof -
  assume "x \<noteq> 0" and b: "- 1022 < binade x"
  then have pos: "0 < \<bar>x\<bar>" by simp
  from b have "binade x = \<lfloor>log 2 \<bar>x\<bar>\<rfloor>" by (simp add: binade_def max_def split: if_splits)
  then have "of_int (binade x) \<le> log 2 \<bar>x\<bar>" by simp
  then show ?thesis using pos by (simp add: le_log_iff)
qed

lemma binade_mono: "x \<noteq> 0 \<Longrightarrow> \<bar>x\<bar> \<le> \<bar>u\<bar> \<Longrightarrow> binade x \<le> binade u"
proof -
  assume "x \<noteq> 0" and "\<bar>x\<bar> \<le> \<bar>u\<bar>"
  then have "log 2 \<bar>x\<bar> \<le> log 2 \<bar>u\<bar>" by simp
  then have "\<lfloor>log 2 \<bar>x\<bar>\<rfloor> \<le> \<lfloor>log 2 \<bar>u\<bar>\<rfloor>" by (rule floor_mono)
  then show ?thesis by (simp add: binade_def)
qed

lemma quantum_eq: "quantum x = 2 powr (of_int (binade x)) / 2 ^ 52"
  unfolding quantum_def by (simp add: powr_diff)

lemma powr_int_Suc: "2 powr (of_int (b + 1)) = 2 * 2 powr (of_int b :: real)"
proof -
  have "(2::real) powr (of_int b + 1) = 2 powr (of_int b) * 2 powr 1"
    by (rule powr_add)
  then show ?thesis by simp
qed

lemma quantum_times: "2 ^ 52 * quantum x = 2 powr (of_int (binade x))"
  by (simp add: quantum_eq)

lemma quantum_times': "2 ^ 53 * quantum x = 2 powr (of_int (binade x + 1))"
  unfolding powr_int_Suc by (simp add: quantum_eq)

lemma scaled_less: "x \<noteq> 0 \<Longrightarrow> \<bar>x\<bar> / quantum x < 2 ^ 53"
proof -
  assume "x \<noteq> 0"
  then have "\<bar>x\<bar> < 2 powr (of_int (binade x + 1))"
    by (rule abs_less_binade)
  then have "\<bar>x\<bar> < 2 ^ 53 * quantum x"
    by (simp only: quantum_times')
  then show ?thesis
    by (simp add: pos_divide_less_eq)
qed

lemma scaled_ge: "x \<noteq> 0 \<Longrightarrow> - 1022 < binade x \<Longrightarrow> 2 ^ 52 \<le> \<bar>x\<bar> / quantum x"
proof -
  assume "x \<noteq> 0" and "- 1022 < binade x"
  then have "2 powr (of_int (binade x)) \<le> \<bar>x\<bar>"
    by (rule binade_le_abs)
  then have "2 ^ 52 * quantum x \<le> \<bar>x\<bar>"
    by (simp only: quantum_times)
  then show ?thesis
    by (simp add: pos_le_divide_eq)
qed

lemma fl_times: "fl x = of_int (round_even (x / quantum x)) * quantum x"
  by (simp add: fl_def)

lemma fl_nonneg: "0 \<le> x \<Longrightarrow> 0 \<le> fl x"
proof -
  assume "0 \<le> x"
  then have "of_int 0 \<le> x / quantum x" by simp
  then have "0 \<le> round_even (x / quantum x)" by (rule round_even_ge)
  then show ?thesis by (simp add: fl_times)
qed

lemma fl_nonpos: "x \<le> 0 \<Longrightarrow> fl x \<le> 0"
proof -
  assume "x \<le> 0"
  then have "x / quantum x \<le> of_int 0" by (simp add: divide_nonpos_pos)
  then have "round_even (x / quantum x) \<le> 0" by (rule round_even_le)
  then have "of_int (round_even (x / quantum x)) \<le> (0 :: real)" by simp
  then show ?thesis by (simp add: fl_times mult_nonpos_nonneg)
qed

lemma fl_upper: "0 < x \<Longrightarrow> fl x \<le> 2 powr (of_int (binade x + 1))"
proof -
  assume x: "0 < x"
  then have "\<bar>x\<bar> / quantum x < 2 ^ 53"
    by (intro scaled_less) simp
  then have "x / quantum x \<le> of_int (2 ^ 53)"
    using x by simp
  then have "round_even (x / quantum x) \<le> 2 ^ 53" by (rule round_even_le)
  then have "of_int (round_even (x / quantum x)) \<le> (of_int (2 ^ 53) :: real)"
    by (simp only: of_int_le_iff)
  then have "of_int (round_even (x / quantum x)) * quantum x \<le> of_int (2 ^ 53) * quantum x"
    by (intro mult_right_mono) simp_all
  then have "fl x \<le> 2 ^ 53 * quantum x"
    by (simp add: fl_times)
  then show ?thesis by (simp only: quantum_times')
qed

lemma fl_lower: "0 < x \<Longrightarrow> - 1022 < binade x \<Longrightarrow> 2 powr (of_int (binade x)) \<le> fl x"
proof -
  assume x: "0 < x" and b: "- 1022 < binade x"
  then have "2 ^ 52 \<le> \<bar>x\<bar> / quantum x"
    by (intro scaled_ge) simp_all
  then have "of_int (2 ^ 52) \<le> x / quantum x"
    using x by simp
  then have "2 ^ 52 \<le> round_even (x / quantum x)" by (rule round_even_ge)
  then have "(of_int (2 ^ 52) :: real) \<le> of_int (round_even (x / quantum x))"
    by (simp only: of_int_le_iff)
  then have "of_int (2 ^ 52) * quantum x \<le> of_int (round_even (x / quantum x)) * quantum x"
    by (intro mult_right_mono) simp_all
  then have "2 ^ 52 * quantum x \<le> fl x"
    by (simp add: fl_times)
  then show ?thesis by (simp only: quantum_times)
qed

lemma fl_upper_neg: "x < 0 \<Longrightarrow> - 1022 < binade x \<Longrightarrow> fl x \<le> - (2 powr (of_int (binade x)))"
proof -
  assume x: "x < 0" and b: "- 1022 < binade x"
  then have "2 ^ 52 \<le> \<bar>x\<bar> / quantum x"
    by (intro scaled_ge) simp_all
  then have "x / quantum x \<le> of_int (- (2 ^ 52))"
    using x by simp
  then have "round_even (x / quantum x) \<le> - (2 ^ 52)" by (rule round_even_le)
  then have "of_int (round_even (x / quantum x)) \<le> (of_int (- (2 ^ 52)) :: real)"
    by (simp only: of_int_le_iff)
  then have "of_int (round_even (x / quantum x)) * quantum x \<le> of_int (- (2 ^ 52)) * quantum x"
    by (intro mult_right_mono) simp_all
  then have "fl x \<le> - (2 ^ 52 * quantum x)"
    by (simp add: fl_times)
  then show ?thesis by (simp only: quantum_times)
qed

lemma fl_lower_neg: "x < 0 \<Longrightarrow> - (2 powr (of_int (binade x + 1))) \<le> fl x"
proof -
  assume x: "x < 0"
  then have "\<bar>x\<bar> / quantum x < 2 ^ 53"
    by (intro scaled_less) simp
  then have "of_int (- (2 ^ 53)) \<le> x / quantum x"
    using x by simp
  then have "- (2 ^ 53) \<le> round_even (x / quantum x)" by (rule round_even_ge)
  then have "(of_int (- (2 ^ 53)) :: real) \<le> of_int (round_even (x / quantum x))"
    by (simp only: of_int_le_iff)
  then have "of_int (- (2 ^ 53)) * quantum x \<le> of_int (round_even (x / quantum x)) * quantum x"
    by (intro mult_right_mono) simp_all
  then have "- (2 ^ 53 * quantum x) \<le> fl x"
    by (simp add: fl_times)
  then show ?thesis by (simp only: quantum_times')
qed

lemma fl_same_binade:
  "x \<noteq> 0 \<Longrightarrow> u \<noteq> 0 \<Longrightarrow> binade x = binade u \<Longrightarrow> x \<le> u \<Longrightarrow> fl x \<le> fl u"
proof -
  assume nz: "x \<noteq> 0" "u \<noteq> 0" and b: "binade x = binade u" and le: "x \<le> u"
  from b have q: "quantum x = quantum u" by (simp add: quantum_def)
  from le have "x / quantum u \<le> u / quantum u" by (intro divide_right_mono) simp_all
  then have "round_even (x / quantum u) \<le> round_even (u / quantum u)" by (rule round_even_mono)
  then show ?thesis using nz by (simp add: fl_def q)
qed

lemma powr_int_mono: "a \<le> b \<Longrightarrow> 2 powr (of_int a) \<le> (2 powr (of_int b) :: real)"
  by simp

lemma fl_mono: "x \<le> u \<Longrightarrow> fl x \<le> fl u"
proof -
  assume le: "x \<le> u"
  consider "x \<le> 0" "0 \<le> u" | "0 < x" | "u < 0" by linarith
  then show ?thesis
  proof cases
    case 1
    then show ?thesis using fl_nonpos [of x] fl_nonneg [of u] by linarith
  next
    case 2
    with le have u: "0 < u" by simp
    from 2 le have "binade x \<le> binade u" by (intro binade_mono) auto
    then consider "binade x = binade u" | "binade x + 1 \<le> binade u" by linarith
    then show ?thesis
    proof cases
      case 1
      with 2 u le show ?thesis by (intro fl_same_binade) auto
    next
      case b: 2
      then have "- 1022 < binade u" using binade_ge [of x] by linarith
      then have "2 powr (of_int (binade u)) \<le> fl u" using u by (intro fl_lower)
      moreover have "fl x \<le> 2 powr (of_int (binade x + 1))" using 2 by (rule fl_upper)
      moreover have "2 powr (of_int (binade x + 1)) \<le> (2 powr (of_int (binade u)) :: real)"
        using b by (rule powr_int_mono)
      ultimately show ?thesis by linarith
    qed
  next
    case 3
    with le have x: "x < 0" by simp
    from 3 le have "binade u \<le> binade x" by (intro binade_mono) auto
    then consider "binade x = binade u" | "binade u + 1 \<le> binade x" by linarith
    then show ?thesis
    proof cases
      case 1
      with 3 x le show ?thesis by (intro fl_same_binade) auto
    next
      case b: 2
      then have "- 1022 < binade x" using binade_ge [of u] by linarith
      then have "fl x \<le> - (2 powr (of_int (binade x)))" using x by (intro fl_upper_neg)
      moreover have "- (2 powr (of_int (binade u + 1))) \<le> fl u" using 3 by (rule fl_lower_neg)
      moreover have "2 powr (of_int (binade u + 1)) \<le> (2 powr (of_int (binade x)) :: real)"
        using b by (rule powr_int_mono)
      ultimately show ?thesis by linarith
    qed
  qed
qed

lemma binade_le: "z \<noteq> 0 \<Longrightarrow> \<bar>z\<bar> < 2 powr (of_int (c + 1)) \<Longrightarrow> - 1022 \<le> c \<Longrightarrow> binade z \<le> c"
proof -
  assume "z \<noteq> 0" and lt: "\<bar>z\<bar> < 2 powr (of_int (c + 1))" and c: "- 1022 \<le> c"
  then have pos: "0 < \<bar>z\<bar>" by simp
  with lt have "log 2 \<bar>z\<bar> < of_int (c + 1)" by (simp add: log_less_iff)
  then have "\<lfloor>log 2 \<bar>z\<bar>\<rfloor> < c + 1" by (simp only: floor_less_iff)
  with c show ?thesis by (simp add: binade_def)
qed

lemma fl_exact:
  assumes z: "z = of_int n * 2 powr (of_int (c - 52))" and b: "binade z \<le> c"
  shows "fl z = z"
proof -
  define d where "d = c - binade z"
  define k where "k = nat d"
  have d: "0 \<le> d" using b by (simp add: d_def)
  have "(2::real) powr (of_int (c - 52)) = 2 powr (of_int d) * 2 powr (of_int (binade z - 52))"
    by (simp add: d_def powr_add [symmetric])
  also have "(2::real) powr (of_int d) = 2 ^ k"
    using d by (simp add: k_def powr_real_of_int)
  finally have e: "z = of_int (n * 2 ^ k) * quantum z"
    by (simp add: quantum_def z)
  have "of_int (n * 2 ^ k) * quantum z / quantum z = (of_int (n * 2 ^ k) :: real)"
    by (rule nonzero_mult_div_cancel_right) (simp add: quantum_def)
  with e have s: "z / quantum z = of_int (n * 2 ^ k)"
    by (simp only:)
  have "fl z = of_int (round_even (z / quantum z)) * quantum z"
    by (rule fl_times)
  also have "\<dots> = of_int (n * 2 ^ k) * quantum z"
    by (simp only: s round_even_int)
  also have "\<dots> = z"
    by (simp only: e [symmetric])
  finally show ?thesis .
qed

lemma two52_powr: "of_int (2 ^ 52) * 2 powr (of_int (c - 52)) = (2 powr (of_int c) :: real)"
  by (simp add: powr_diff)

lemma fl_int: "\<bar>k\<bar> < 2 ^ 53 \<Longrightarrow> fl (of_int k) = of_int k"
proof (cases "k = 0")
  case True
  then show ?thesis by (simp add: fl_def)
next
  case False
  assume "\<bar>k\<bar> < 2 ^ 53"
  then have "\<bar>real_of_int k\<bar> < 2 ^ 53"
    by (metis of_int_abs of_int_less_iff of_int_numeral of_int_power)
  then have "\<bar>real_of_int k\<bar> < 2 powr (of_int (52 + 1))"
    by (simp add: powr_numeral)
  with False have "binade (of_int k) \<le> 52"
    by (intro binade_le) simp_all
  moreover have "real_of_int k = of_int k * 2 powr (of_int (52 - 52))"
    by simp
  ultimately show ?thesis by (rule fl_exact [rotated])
qed

lemma round_scaled_bounds:
  assumes "x \<noteq> 0"
  shows "- (2 ^ 53) \<le> round_even (x / quantum x) \<and> round_even (x / quantum x) \<le> 2 ^ 53"
proof -
  have lt: "\<bar>x\<bar> / quantum x < 2 ^ 53"
    using assms by (rule scaled_less)
  have "\<bar>x / quantum x\<bar> = \<bar>x\<bar> / quantum x" by simp
  with lt have "of_int (- (2 ^ 53)) \<le> x / quantum x" and "x / quantum x \<le> of_int (2 ^ 53)"
    by (simp_all add: abs_if split: if_splits)
  then show ?thesis
    using round_even_ge round_even_le by blast
qed

lemma fl_idem: "fl (fl x) = fl x"
proof (cases "fl x = 0")
  case True
  then show ?thesis by (simp add: fl_def)
next
  case False
  then have x: "x \<noteq> 0" by (auto simp: fl_def)
  define n where "n = round_even (x / quantum x)"
  have z: "fl x = of_int n * 2 powr (of_int (binade x - 52))"
    by (simp add: fl_times n_def quantum_def)
  have nb: "- (2 ^ 53) \<le> n" "n \<le> 2 ^ 53"
    using round_scaled_bounds [OF x] by (simp_all add: n_def)
  consider "\<bar>n\<bar> < 2 ^ 53" | "n = 2 ^ 53" | "n = - (2 ^ 53)"
    using nb by linarith
  then show ?thesis
  proof cases
    case 1
    then have "\<bar>real_of_int n\<bar> < 2 ^ 53"
      by (metis of_int_abs of_int_less_iff of_int_numeral of_int_power)
    then have "\<bar>real_of_int n\<bar> * quantum x < 2 ^ 53 * quantum x"
      by (intro mult_strict_right_mono) simp_all
    moreover have "\<bar>fl x\<bar> = \<bar>real_of_int n\<bar> * quantum x"
      by (simp add: fl_times n_def abs_mult)
    ultimately have "\<bar>fl x\<bar> < 2 ^ 53 * quantum x"
      by (simp only:)
    then have "\<bar>fl x\<bar> < 2 powr (of_int (binade x + 1))"
      by (simp only: quantum_times')
    with False have "binade (fl x) \<le> binade x"
      using binade_ge [of x] by (intro binade_le) simp_all
    with z show ?thesis by (rule fl_exact)
  next
    case 2
    then have v: "fl x = 2 powr (of_int (binade x + 1))"
      using quantum_times' [of x] by (simp add: fl_times n_def)
    then have "\<bar>fl x\<bar> < 2 powr (of_int ((binade x + 1) + 1))"
      by simp
    with False have "binade (fl x) \<le> binade x + 1"
      using binade_ge [of x] by (intro binade_le) simp_all
    moreover have "fl x = of_int (2 ^ 52) * 2 powr (of_int ((binade x + 1) - 52))"
      by (simp only: v two52_powr)
    ultimately show ?thesis by (rule fl_exact [rotated])
  next
    case 3
    then have v: "fl x = - (2 powr (of_int (binade x + 1)))"
      using quantum_times' [of x] by (simp add: fl_times n_def)
    then have "\<bar>fl x\<bar> < 2 powr (of_int ((binade x + 1) + 1))"
      by simp
    with False have "binade (fl x) \<le> binade x + 1"
      using binade_ge [of x] by (intro binade_le) simp_all
    moreover have "fl x = of_int (- (2 ^ 52)) * 2 powr (of_int ((binade x + 1) - 52))"
      using two52_powr [of "binade x + 1"] by (simp only: v of_int_minus mult_minus_left)
    ultimately show ?thesis by (rule fl_exact [rotated])
  qed
qed

lemma fl_0 [simp]: "fl 0 = 0"
  by (simp add: fl_def)

lemma fl_1 [simp]: "fl 1 = 1"
  using fl_int [of 1] by simp

lemma fl_numeral [simp]: "(numeral n :: int) < 2 ^ 53 \<Longrightarrow> fl (numeral n) = numeral n"
  using fl_int [of "numeral n"] by simp

lemma fl_neg_numeral [simp]: "(numeral n :: int) < 2 ^ 53 \<Longrightarrow> fl (- numeral n) = - numeral n"
  using fl_int [of "- numeral n"] by simp

section \<open>Properties of the token merger\<close>

lemma lengthOr1_max: "lengthOr1 s = real (max 1 (length s))"
  by (cases s) (simp_all add: lengthOr1_def)

lemma merge_loop_text:
  "concat (map str (merge_loop merged cur rest)) =
     concat (map str merged) @ str cur @ concat (map str rest)"
  by (induction merged cur rest rule: merge_loop.induct) (simp_all add: Let_def)

text \<open>
  C4. In the walk over the x-sorted fragments, with
  \<open>gap = nextX - (currentX + currentWidth)\<close> and
  \<open>threshold = (currentWidth / max 1 currentTextLength) * 0.5\<close>, both in the code's double
  arithmetic, the accumulator and the next fragment merge if and only if
  \<open>- 2 \<le> gap < threshold\<close>; on a merge the accumulator's text becomes the concatenation
  and its width \<open>(nextX + nextWidth) - currentX\<close>; otherwise the accumulator is flushed and
  the next fragment becomes the accumulator. Consequently (the fragments being sorted,
  \<open>currentX \<le> nextX\<close>, and \<open>currentX\<close> being a double) a gap above one full average
  character width of the accumulator never merges.
\<close>

theorem merge_threshold:
  "(let gap = fl (tx nxt - fl (tx cur + width cur));
        avg = fl (width cur / real (max 1 (length (str cur))));
        threshold = fl (avg * 0.5)
    in merge_loop merged cur (nxt # rest) =
         (if - 2 \<le> gap \<and> gap < threshold
          then merge_loop merged
                 (cur\<lparr>str := str cur @ str nxt,
                      width := fl (fl (tx nxt + width nxt) - tx cur)\<rparr>) rest
          else merge_loop (merged @ [cur]) nxt rest)
       \<and> (fl (tx cur) = tx cur \<longrightarrow> tx cur \<le> tx nxt \<longrightarrow> gap > avg \<longrightarrow>
            merge_loop merged cur (nxt # rest) = merge_loop (merged @ [cur]) nxt rest))"
proof -
  define gap where "gap = fl (tx nxt - fl (tx cur + width cur))"
  define avg where "avg = fl (width cur / real (max 1 (length (str cur))))"
  define threshold where "threshold = fl (avg * 0.5)"
  have step: "merge_loop merged cur (nxt # rest) =
         (if - 2 \<le> gap \<and> gap < threshold
          then merge_loop merged
                 (cur\<lparr>str := str cur @ str nxt,
                      width := fl (fl (tx nxt + width nxt) - tx cur)\<rparr>) rest
          else merge_loop (merged @ [cur]) nxt rest)"
    by (simp add: Let_def lengthOr1_max gap_def avg_def threshold_def)
  have far: "merge_loop merged cur (nxt # rest) = merge_loop (merged @ [cur]) nxt rest"
    if dbl: "fl (tx cur) = tx cur" and sorted: "tx cur \<le> tx nxt" and wide: "gap > avg"
  proof -
    have "\<not> gap < threshold"
    proof (cases "0 \<le> avg")
      case True
      then have "avg * 0.5 \<le> avg" by simp
      then have "threshold \<le> fl avg" unfolding threshold_def by (rule fl_mono)
      also have "fl avg = avg" unfolding avg_def by (rule fl_idem)
      finally show ?thesis using wide by simp
    next
      case False
      have "width cur / real (max 1 (length (str cur))) < 0"
      proof (rule ccontr)
        assume "\<not> width cur / real (max 1 (length (str cur))) < 0"
        then have "0 \<le> avg" unfolding avg_def by (intro fl_nonneg) simp
        with False show False by simp
      qed
      then have w: "width cur < 0" by (simp add: divide_less_0_iff)
      then have "fl (tx cur + width cur) \<le> fl (tx cur)" by (intro fl_mono) simp
      with dbl sorted have "0 \<le> tx nxt - fl (tx cur + width cur)" by simp
      then have "0 \<le> gap" unfolding gap_def by (rule fl_nonneg)
      moreover have "threshold \<le> 0"
        unfolding threshold_def using False by (intro fl_nonpos) simp
      ultimately show ?thesis by simp
    qed
    with step show ?thesis by simp
  qed
  show ?thesis
    unfolding Let_def gap_def [symmetric] avg_def [symmetric] threshold_def [symmetric]
    using step far by blast
qed

theorem merge_threshold_witness:
  "fl (tx \<lparr>str = js ''Em'', width = 20, tx = 0, ty = 700\<rparr>)
     = tx \<lparr>str = js ''Em'', width = 20, tx = 0, ty = 700\<rparr>
   \<and> tx \<lparr>str = js ''Em'', width = 20, tx = 0, ty = 700\<rparr>
     \<le> tx \<lparr>str = js ''G7'', width = 20, tx = 35, ty = 700\<rparr>
   \<and> fl (tx \<lparr>str = js ''G7'', width = 20, tx = 35, ty = 700\<rparr>
       - fl (tx \<lparr>str = js ''Em'', width = 20, tx = 0, ty = 700\<rparr>
          + width \<lparr>str = js ''Em'', width = 20, tx = 0, ty = 700\<rparr>))
     > fl (width \<lparr>str = js ''Em'', width = 20, tx = 0, ty = 700\<rparr>
       / real (max 1 (length (str \<lparr>str = js ''Em'', width = 20, tx = 0, ty = 700\<rparr>))))
   \<and> merge_loop [] \<lparr>str = js ''Em'', width = 20, tx = 0, ty = 700\<rparr>
         [\<lparr>str = js ''G7'', width = 20, tx = 35, ty = 700\<rparr>]
       = [\<lparr>str = js ''Em'', width = 20, tx = 0, ty = 700\<rparr>,
          \<lparr>str = js ''G7'', width = 20, tx = 35, ty = 700\<rparr>]"
  using merge_threshold [where cur = "\<lparr>str = js ''Em'', width = 20, tx = 0, ty = 700\<rparr>"
      and nxt = "\<lparr>str = js ''G7'', width = 20, tx = 35, ty = 700\<rparr>"
      and merged = "[]" and rest = "[]"]
  by (simp add: js_def)

text \<open>
  C10. The token merger loses no text: the texts of the output tokens, concatenated in
  output order, are the texts of the input fragments concatenated in ascending order of x
  (the stable sort the merger itself performs).
\<close>

theorem merge_preserves_text:
  "concat (map str (mergeAdjacentTextItems its)) = concat (map str (sort_key tx its))"
proof (cases "length its < 2")
  case True
  then have "its = [] \<or> (\<exists>a. its = [a])"
    by (cases its) auto
  then have "sort_key tx its = its"
    by auto
  with True show ?thesis by (simp add: mergeAdjacentTextItems_def)
next
  case False
  then show ?thesis
    by (cases "sort_key tx its") (simp_all add: mergeAdjacentTextItems_def merge_loop_text)
qed

section \<open>Properties of the line classifier\<close>

lemmas trim_defs = trim_def trimEnd_def trimStart_def isWhiteSpace_def

lemmas regex_defs = re_test_def chordRegex_def re_seq_def re_class_def re_opt_def re_alt_def
  re_lit_def accidental_def quality_def isAtoG_def isDigit_def re_plus_class_def

lemmas strip_defs = keyword_at_def chordWords_def asciiUpper_def isHtoZ_def

lemma tokens_chorus:
  "tokens_of [\<lparr>str = js ''[Chorus]'', width = w, tx = a, ty = b\<rparr>] = [js ''[Chorus]'']"
  by (simp add: tokens_of_def js_def trim_defs)

lemma not_chord_chorus: "\<not> isChordToken (js ''[Chorus]'')"
  by (simp add: isChordToken_def js_def trim_defs regex_defs)

lemma hasLyrics_chorus: "hasLyrics [js ''[Chorus]'']"
  by (simp add: hasLyrics_def js_def strip_defs)

text \<open>
  C5. The specification has a line whose sole token is \<open>[Chorus]\<close> classify as Unknown, as
  the source's own comment on the bracket test says ("Treat section headers like [Intro]
  as unknown"). The code returns Lyric: the letters \<open>h\<close>, \<open>o\<close>, \<open>r\<close>, \<open>u\<close>, \<open>s\<close> make the
  letter test answer first, and the bracket test behind it is never reached.
\<close>

theorem section_marker_is_lyric:
  "classifyLine [\<lparr>str = js ''[Chorus]'', width = w, tx = a, ty = b\<rparr>] = LYRIC"
  by (simp add: classifyLine_def tokens_chorus chordRatio_def not_chord_chorus hasLyrics_chorus)

lemma tokens_dm:
  "tokens_of [\<lparr>str = js ''Dm'', width = w1, tx = a1, ty = b1\<rparr>,
              \<lparr>str = js ''is'', width = w2, tx = a2, ty = b2\<rparr>,
              \<lparr>str = js ''great'', width = w3, tx = a3, ty = b3\<rparr>]
   = [js ''Dm'', js ''is'', js ''great'']"
  by (simp add: tokens_of_def js_def trim_defs)

lemma chord_dm: "isChordToken (js ''Dm'')"
  by (simp add: isChordToken_def js_def trim_defs regex_defs)

lemma not_chord_is: "\<not> isChordToken (js ''is'')"
  by (simp add: isChordToken_def js_def trim_defs regex_defs)

lemma not_chord_great: "\<not> isChordToken (js ''great'')"
  by (simp add: isChordToken_def js_def trim_defs regex_defs)

lemma ratio_dm: "chordRatio [js ''Dm'', js ''is'', js ''great''] = 1 / 3"
  by (simp add: chordRatio_def chord_dm not_chord_is not_chord_great)

lemma strip_great: "strip_keywords (js ''great'') = js ''great''"
  by (simp add: js_def strip_defs)

text \<open>
  C6. The letter test comes strictly before the low-ratio fallback: whenever the chord
  ratio of the terms (the trimmed non-empty token strings) is at most 0.7 and some term,
  after the removal of \<open>min\<close>, \<open>maj\<close>, \<open>aug\<close>, \<open>dim\<close>, \<open>sus\<close>, \<open>add\<close>, \<open>flat\<close> in any
  letter case, still contains a letter in h--z or H--Z, the line is Lyric, also when the
  ratio is above 0.2. In particular the tokens \<open>Dm\<close>, \<open>is\<close>, \<open>great\<close> (ratio 1/3) give
  Lyric.
\<close>

theorem letters_before_ratio:
  "(chordRatio (tokens_of lineItems) \<le> 0.7 \<longrightarrow>
      (\<exists>t \<in> set (tokens_of lineItems). \<exists>c \<in> set (strip_keywords t). isHtoZ c) \<longrightarrow>
      classifyLine lineItems = LYRIC)
   \<and> classifyLine [\<lparr>str = js ''Dm'', width = w1, tx = a1, ty = b1\<rparr>,
                    \<lparr>str = js ''is'', width = w2, tx = a2, ty = b2\<rparr>,
                    \<lparr>str = js ''great'', width = w3, tx = a3, ty = b3\<rparr>] = LYRIC"
proof (intro conjI impI)
  assume ratio: "chordRatio (tokens_of lineItems) \<le> 0.7"
    and letters: "\<exists>t \<in> set (tokens_of lineItems). \<exists>c \<in> set (strip_keywords t). isHtoZ c"
  from letters have ne: "tokens_of lineItems \<noteq> []" by auto
  then have "lineItems \<noteq> []" by (auto simp: tokens_of_def)
  moreover from letters have "hasLyrics (tokens_of lineItems)"
    by (simp add: hasLyrics_def list_ex_iff)
  ultimately show "classifyLine lineItems = LYRIC"
    using ratio ne by (simp add: classifyLine_def Let_def)
next
  have "hasLyrics [js ''Dm'', js ''is'', js ''great'']"
    by (simp add: hasLyrics_def strip_great) (simp add: js_def isHtoZ_def)
  then show "classifyLine [\<lparr>str = js ''Dm'', width = w1, tx = a1, ty = b1\<rparr>,
                    \<lparr>str = js ''is'', width = w2, tx = a2, ty = b2\<rparr>,
                    \<lparr>str = js ''great'', width = w3, tx = a3, ty = b3\<rparr>] = LYRIC"
    by (simp add: classifyLine_def tokens_dm ratio_dm)
qed

theorem letters_before_ratio_witness:
  "chordRatio (tokens_of [\<lparr>str = js ''Dm'', width = 14, tx = 0, ty = 500\<rparr>,
                          \<lparr>str = js ''is'', width = 9, tx = 20, ty = 500\<rparr>,
                          \<lparr>str = js ''great'', width = 30, tx = 35, ty = 500\<rparr>]) \<le> 0.7
   \<and> chordRatio (tokens_of [\<lparr>str = js ''Dm'', width = 14, tx = 0, ty = 500\<rparr>,
                          \<lparr>str = js ''is'', width = 9, tx = 20, ty = 500\<rparr>,
                          \<lparr>str = js ''great'', width = 30, tx = 35, ty = 500\<rparr>]) > 0.2
   \<and> (\<exists>t \<in> set (tokens_of [\<lparr>str = js ''Dm'', width = 14, tx = 0, ty = 500\<rparr>,
                          \<lparr>str = js ''is'', width = 9, tx = 20, ty = 500\<rparr>,
                          \<lparr>str = js ''great'', width = 30, tx = 35, ty = 500\<rparr>]).
         \<exists>c \<in> set (strip_keywords t). isHtoZ c)
   \<and> classifyLine [\<lparr>str = js ''Dm'', width = 14, tx = 0, ty = 500\<rparr>,
                          \<lparr>str = js ''is'', width = 9, tx = 20, ty = 500\<rparr>,
                          \<lparr>str = js ''great'', width = 30, tx = 35, ty = 500\<rparr>] = LYRIC"
proof -
  have r: "chordRatio (tokens_of [\<lparr>str = js ''Dm'', width = 14, tx = 0, ty = 500\<rparr>,
                          \<lparr>str = js ''is'', width = 9, tx = 20, ty = 500\<rparr>,
                          \<lparr>str = js ''great'', width = 30, tx = 35, ty = 500\<rparr>]) = 1 / 3"
    by (simp only: tokens_dm ratio_dm)
  have l: "\<exists>t \<in> set (tokens_of [\<lparr>str = js ''Dm'', width = 14, tx = 0, ty = 500\<rparr>,
                          \<lparr>str = js ''is'', width = 9, tx = 20, ty = 500\<rparr>,
                          \<lparr>str = js ''great'', width = 30, tx = 35, ty = 500\<rparr>]).
         \<exists>c \<in> set (strip_keywords t). isHtoZ c"
    unfolding tokens_dm by (simp add: strip_great) (simp add: js_def isHtoZ_def)
  show ?thesis
    using r l letters_before_ratio [where lineItems = "[\<lparr>str = js ''Dm'', width = 14, tx = 0, ty = 500\<rparr>,
                          \<lparr>str = js ''is'', width = 9, tx = 20, ty = 500\<rparr>,
                          \<lparr>str = js ''great'', width = 30, tx = 35, ty = 500\<rparr>]"]
    by simp
qed

section \<open>Properties of the alignment reconstructor\<close>

lemma lyric_go_tell_it:
  "lyric_loop [] [] None [\<lparr>str = js ''Go tell it'', width = 100, tx = 0, ty = 90\<rparr>]
   = (js ''Go tell it'', [0, 10, 20, 30, 40, 50, 60, 70, 80, 90])"
  by (simp add: js_def lengthOr1_def upt_conv_Cons)

lemma adv0: "advance_cursor [0, 10, 20, 30, 40, 50, 60, 70, 80, 90] 0 0 = Some 0"
  by (subst advance_cursor.simps) simp

text \<open>
  C1. The specification says that, once the cursor is positioned, the chord's characters are
  written into the chord buffer from the cursor index on (and that a write past the end
  of the buffer raises the unplaceable-chord failure). The code never writes: the write
  loop computes its target index from \<open>closestCharIndex\<close>, an identifier that is
  assigned nowhere, so the first character of any chord throws a \<open>ReferenceError\<close>.
  Here the chord \<open>G\<close> at x = 0 stands over the lyric \<open>Go tell it\<close> that starts at
  x = 0; the cursor is positioned at index 0 and the write throws.
\<close>

theorem chord_write_reference_error:
  "reconstructCouplet [\<lparr>str = js ''G'', width = 10, tx = 0, ty = 100\<rparr>]
                      [\<lparr>str = js ''Go tell it'', width = 100, tx = 0, ty = 90\<rparr>]
   = Inl (ReferenceError ''closestCharIndex'')"
  unfolding reconstructCouplet_def lyric_go_tell_it
  by (simp add: adv0 write_chord_def js_def)

section \<open>Properties of the assembler\<close>

lemma render_loop_zip:
  "render_loop lineText (Some (fl (tx l + width l))) rest =
     lineText @ concat (map (\<lambda>(l, r).
        (if fl (tx r - fl (tx l + width l)) > fl (width r / real (max 1 (length (str r))))
         then js '' '' else []) @ str r) (zip (l # rest) rest))"
proof (induction rest arbitrary: lineText l)
  case Nil
  then show ?case by simp
next
  case (Cons r rest)
  show ?case
    by (simp add: Cons.IH [of _ r] lengthOr1_max Let_def)
qed

text \<open>
  C9. A line that is not part of a couplet is rendered by concatenating its
  tokens from left to right, with a single space between two adjacent tokens exactly
  when the gap between the left token's end-x and the right token's start-x exceeds one
  average character width of the right token (its width divided by its character count,
  or by 1 when it has no characters); end-x, gap and average width are the code's
  doubles, each operation rounded.
\<close>

theorem render_line_spacing:
  "render_line [] = [] \<and>
   render_line (first # rest) =
     str first @ concat (map (\<lambda>(l, r).
        (if fl (tx r - fl (tx l + width l)) > fl (width r / real (max 1 (length (str r))))
         then js '' '' else []) @ str r) (zip (first # rest) rest))"
  by (simp add: render_line_def render_loop_zip)

theorem render_line_spacing_witness:
  "render_line [\<lparr>str = js ''A'', width = 10, tx = 0, ty = 50\<rparr>,
                \<lparr>str = js ''BBBB'', width = 8, tx = 15, ty = 50\<rparr>,
                \<lparr>str = js ''C'', width = 10, tx = 24, ty = 50\<rparr>] = js ''A BBBBC''"
  using render_line_spacing [where first = "\<lparr>str = js ''A'', width = 10, tx = 0, ty = 50\<rparr>"
      and rest = "[\<lparr>str = js ''BBBB'', width = 8, tx = 15, ty = 50\<rparr>,
        \<lparr>str = js ''C'', width = 10, tx = 24, ty = 50\<rparr>]"]
  by (simp add: js_def)

text \<open>
  The specification measures the gap against the left token's average character width,
  the code against the right token's. Here every number and every intermediate result
  is a small integer, so nothing is rounded: the gap is 5, the left token's average
  character width is 10 and the right token's is 2. The gap does not exceed the left
  token's width, and a space is inserted all the same.
\<close>

theorem space_by_right_token_width:
  "render_line [\<lparr>str = js ''A'', width = 10, tx = 0, ty = 50\<rparr>,
                \<lparr>str = js ''BBBB'', width = 8, tx = 15, ty = 50\<rparr>] = js ''A BBBB''
   \<and> \<not> (fl (tx \<lparr>str = js ''BBBB'', width = 8, tx = 15, ty = 50\<rparr>
          - fl (tx \<lparr>str = js ''A'', width = 10, tx = 0, ty = 50\<rparr>
             + width \<lparr>str = js ''A'', width = 10, tx = 0, ty = 50\<rparr>))
          > fl (width \<lparr>str = js ''A'', width = 10, tx = 0, ty = 50\<rparr>
            / real (length (str \<lparr>str = js ''A'', width = 10, tx = 0, ty = 50\<rparr>))))"
  by (simp add: render_line_def lengthOr1_def js_def)

section \<open>Properties of the pair detector and of the page loop\<close>

lemma isPair_spec:
  "isPair ls i \<longleftrightarrow> i + 1 < length ls \<and> spec_couplet (ls ! i) (ls ! (i + 1))"
  by (auto simp: isPair_def spec_couplet_def)

lemma page_loop_spec:
  "i \<le> length ls \<Longrightarrow> P \<subseteq> {..<i} \<Longrightarrow>
   page_loop ls i P t = (case spec_assemble (drop i ls) of Inl e \<Rightarrow> Inl e | Inr u \<Rightarrow> Inr (t @ u))"
proof (induction "length ls - i" arbitrary: i P t rule: less_induct)
  case less
  show ?case
  proof (cases "i < length ls")
    case False
    with less.prems have "i = length ls" by simp
    then show ?thesis by (subst page_loop.simps) simp
  next
    case True
    from less.prems have notin: "i \<notin> P" by auto
    have d: "drop i ls = ls ! i # drop (Suc i) ls"
      using True by (simp add: Cons_nth_drop_Suc)
    show ?thesis
    proof (cases "isPair ls i")
      case False
      have step: "page_loop ls i P t =
          page_loop ls (Suc i) (insert i P) (t @ render_line (items (ls ! i)) @ newline)"
        using True notin False by (subst page_loop.simps) simp
      have ih: "page_loop ls (Suc i) (insert i P) (t @ render_line (items (ls ! i)) @ newline) =
          (case spec_assemble (drop (Suc i) ls) of Inl e \<Rightarrow> Inl e
           | Inr u \<Rightarrow> Inr ((t @ render_line (items (ls ! i)) @ newline) @ u))"
        using True less.prems by (intro less.hyps) auto
      show ?thesis
      proof (cases "Suc i < length ls")
        case False
        with True have "drop (Suc i) ls = []" by simp
        with step ih d show ?thesis by simp
      next
        case Suc: True
        have d2: "drop (Suc i) ls = ls ! Suc i # drop (Suc (Suc i)) ls"
          using Suc by (simp add: Cons_nth_drop_Suc)
        from False Suc have "\<not> spec_couplet (ls ! i) (ls ! Suc i)"
          by (simp add: isPair_spec)
        with step ih d d2 show ?thesis
          by (simp split: sum.splits)
      qed
    next
      case pair: True
      then have Suc: "Suc i < length ls" and sc: "spec_couplet (ls ! i) (ls ! Suc i)"
        by (simp_all add: isPair_spec)
      have d2: "drop (Suc i) ls = ls ! Suc i # drop (Suc (Suc i)) ls"
        using Suc by (simp add: Cons_nth_drop_Suc)
      show ?thesis
      proof (cases "reconstructCouplet (items (ls ! i)) (items (ls ! Suc i))")
        case (Inl e)
        have "page_loop ls i P t = Inl e"
          using True notin pair Inl by (subst page_loop.simps) simp
        with d d2 sc Inl show ?thesis by simp
      next
        case (Inr r)
        obtain c l where r: "r = (c, l)" by (cases r)
        let ?P = "insert (Suc i) (insert i P)"
        let ?t = "t @ c @ newline @ l @ newline"
        have step1: "page_loop ls i P t = page_loop ls (Suc i) ?P ?t"
          using True notin pair Inr r by (subst page_loop.simps) simp
        have step2: "page_loop ls (Suc i) ?P ?t = page_loop ls (Suc (Suc i)) ?P ?t"
          using Suc by (subst page_loop.simps) simp
        have ih: "page_loop ls (Suc (Suc i)) ?P ?t =
            (case spec_assemble (drop (Suc (Suc i)) ls) of Inl e \<Rightarrow> Inl e
             | Inr u \<Rightarrow> Inr (?t @ u))"
          using Suc less.prems by (intro less.hyps) auto
        from step1 step2 ih d d2 sc Inr r show ?thesis
          by (simp split: sum.splits)
      qed
    qed
  qed
qed

text \<open>
  C7. The source's loop over the index \<open>i\<close> and the set \<open>processedIndices\<close> computes
  what the greedy pairing of the specification describes: going down the line sequence,
  lines \<open>i\<close> and \<open>i + 1\<close> are treated as a couplet iff line \<open>i\<close> is a Chord line,
  line \<open>i + 1\<close> is a Lyric line and the difference of their y-coordinates, as the code's
  double subtraction gives it, is less than 30 in absolute value; both lines of a
  couplet are consumed, every other line is rendered on its own. The second line of a
  pair never starts another pair. A difference of 29 pairs, a difference of 32 does not.
\<close>

theorem pairing_greedy:
  "page_loop ls 0 {} [] = spec_assemble ls
   \<and> (isPair ls i \<longleftrightarrow>
        i + 1 < length ls \<and> type (ls ! i) = CHORD \<and> type (ls ! (i + 1)) = LYRIC \<and>
        \<bar>fl (y (ls ! i) - y (ls ! (i + 1)))\<bar> < 30)
   \<and> \<not> (isPair ls i \<and> isPair ls (i + 1))
   \<and> spec_couplet \<lparr>y = 100, items = cs, type = CHORD\<rparr> \<lparr>y = 129, items = ws, type = LYRIC\<rparr>
   \<and> \<not> spec_couplet \<lparr>y = 100, items = cs, type = CHORD\<rparr> \<lparr>y = 132, items = ws, type = LYRIC\<rparr>"
proof (intro conjI)
  show "page_loop ls 0 {} [] = spec_assemble ls"
    using page_loop_spec [of 0 ls "{}" "[]"] by (simp split: sum.splits)
  show "isPair ls i \<longleftrightarrow>
        i + 1 < length ls \<and> type (ls ! i) = CHORD \<and> type (ls ! (i + 1)) = LYRIC \<and>
        \<bar>fl (y (ls ! i) - y (ls ! (i + 1)))\<bar> < 30"
    by (auto simp: isPair_def)
  show "\<not> (isPair ls i \<and> isPair ls (i + 1))"
    by (auto simp: isPair_def)
qed (simp_all add: spec_couplet_def)

lemma page_loop_start: "page_loop ls 0 {} [] = spec_assemble ls"
  using page_loop_spec [of 0 ls "{}" "[]"] by (simp split: sum.splits)

lemma chord_loop_append:
  "chord_loop m buf c0 cpre = Inr (buf', cursor) \<Longrightarrow>
   chord_loop m buf c0 (cpre @ rest) = chord_loop m buf' cursor rest"
proof (induction cpre arbitrary: buf c0)
  case Nil
  then show ?case by simp
next
  case (Cons c cpre)
  obtain chordText x where c: "c = (chordText, x)" by (cases c)
  from Cons.prems obtain c1 buf1 where
    a: "advance_cursor m c0 x = Some c1" and w: "write_chord buf chordText = Inr buf1"
    and r: "chord_loop m buf1 c1 cpre = Inr (buf', cursor)"
    by (auto simp: c split: option.splits sum.splits)
  from Cons.IH [OF r] a w show ?case by (simp add: c)
qed

lemma extract_loop_append:
  "extract_loop t pre = Inr t' \<Longrightarrow> extract_loop t (pre @ rest) = extract_loop t' rest"
  by (induction pre arbitrary: t) (auto split: sum.splits)

lemma spec_assemble_append:
  "type a = CHORD \<Longrightarrow>
   spec_assemble (lpre @ a # rest) =
     (case spec_assemble lpre of
        Inl e \<Rightarrow> Inl e
      | Inr t \<Rightarrow> (case spec_assemble (a # rest) of Inl e \<Rightarrow> Inl e | Inr u \<Rightarrow> Inr (t @ u)))"
proof (induction lpre rule: spec_assemble.induct)
  case 1
  then show ?case by (simp split: sum.splits)
next
  case (2 l)
  then have "\<not> spec_couplet l a" by (simp add: spec_couplet_def)
  then show ?case by (simp split: sum.splits)
next
  case (3 l1 l2 more)
  then show ?case by (simp split: sum.splits prod.splits)
qed

lemma placement_error_propagates:
  assumes pre: "extract_loop [] pre = Inr fullText"
    and page: "rawItems \<noteq> []"
      "classify_lines (group_loop [] (mergeAdjacentTextItems rawItems)) = lpre @ a # b # lpost"
    and above: "spec_assemble lpre = Inr pageText"
    and couplet: "spec_couplet a b"
    and lyric: "lyric_loop [] [] None (items b) = (lyricString, indexToXMap)"
    and chords: "map (\<lambda>item. (str item, tx item)) (items a) = cpre @ (chordText, x) # cpost"
    and placed: "chord_loop indexToXMap (replicate (length lyricString) (js '' '')) 0 cpre
                   = Inr (buf, cursor)"
    and off_end: "advance_cursor indexToXMap cursor x = None"
  shows "extractTextFromPdf (pre @ rawItems # post) = Inl (PlacementError chordText)
         \<and> (\<forall>t. extractTextFromPdf (pre @ rawItems # post) \<noteq> Inr t)"
proof -
  have "chord_loop indexToXMap (replicate (length lyricString) (js '' '')) 0
          (cpre @ (chordText, x) # cpost) = Inl (PlacementError chordText)"
    using chord_loop_append [OF placed] off_end by simp
  then have recon: "reconstructCouplet (items a) (items b) = Inl (PlacementError chordText)"
    by (simp add: reconstructCouplet_def lyric chords)
  have "spec_assemble (a # b # lpost) = Inl (PlacementError chordText)"
    using couplet recon by simp
  moreover have "type a = CHORD"
    using couplet by (simp add: spec_couplet_def)
  ultimately have "spec_assemble (lpre @ a # b # lpost) = Inl (PlacementError chordText)"
    using above by (simp add: spec_assemble_append)
  then have loop: "page_loop (classify_lines (group_loop [] (mergeAdjacentTextItems rawItems))) 0 {} []
      = Inl (PlacementError chordText)"
    by (simp add: page_loop_start page(2))
  have "mergeAdjacentTextItems rawItems \<noteq> []"
  proof
    assume "mergeAdjacentTextItems rawItems = []"
    then have "classify_lines (group_loop [] (mergeAdjacentTextItems rawItems)) = []"
      by (simp add: classify_lines_def)
    with page(2) show False by simp
  qed
  with page(1) loop have "process_page fullText rawItems = Inl (PlacementError chordText)"
    by (simp add: process_page_def Let_def)
  then have "extract_loop [] (pre @ rawItems # post) = Inl (PlacementError chordText)"
    using extract_loop_append [OF pre] by simp
  then show ?thesis
    by (simp add: extractTextFromPdf_def)
qed

lemma classify_title: "classifyLine [\<lparr>str = js ''Title'', width = 50, tx = 0, ty = 700\<rparr>] = LYRIC"
proof -
  have t: "tokens_of [\<lparr>str = js ''Title'', width = 50, tx = 0, ty = 700\<rparr>] = [js ''Title'']"
    by (simp add: tokens_of_def js_def trim_defs)
  have c: "\<not> isChordToken (js ''Title'')"
    by (simp add: isChordToken_def js_def trim_defs regex_defs)
  have h: "hasLyrics [js ''Title'']"
    by (simp add: hasLyrics_def js_def strip_defs)
  show ?thesis
    by (simp add: classifyLine_def t chordRatio_def c h)
qed

lemma classify_G: "classifyLine [\<lparr>str = js ''G'', width = 10, tx = 200, ty = 100\<rparr>] = CHORD"
proof -
  have t: "tokens_of [\<lparr>str = js ''G'', width = 10, tx = 200, ty = 100\<rparr>] = [js ''G'']"
    by (simp add: tokens_of_def js_def trim_defs)
  have c: "isChordToken (js ''G'')"
    by (simp add: isChordToken_def js_def trim_defs regex_defs)
  show ?thesis
    by (simp add: classifyLine_def t chordRatio_def c)
qed

lemma classify_hello: "classifyLine [\<lparr>str = js ''Hello'', width = 50, tx = 0, ty = 71\<rparr>] = LYRIC"
proof -
  have t: "tokens_of [\<lparr>str = js ''Hello'', width = 50, tx = 0, ty = 71\<rparr>] = [js ''Hello'']"
    by (simp add: tokens_of_def js_def trim_defs)
  have c: "\<not> isChordToken (js ''Hello'')"
    by (simp add: isChordToken_def js_def trim_defs regex_defs)
  have h: "hasLyrics [js ''Hello'']"
    by (simp add: hasLyrics_def js_def strip_defs)
  show ?thesis
    by (simp add: classifyLine_def t chordRatio_def c h)
qed

lemma title_page:
  "extract_loop [] [[\<lparr>str = js ''Title'', width = 50, tx = 0, ty = 700\<rparr>]] = Inr (js ''Title'' @ newline @ newline)"
proof -
  have "classify_lines (group_loop [] (mergeAdjacentTextItems [\<lparr>str = js ''Title'', width = 50, tx = 0, ty = 700\<rparr>]))
        = [\<lparr>y = 700, items = [\<lparr>str = js ''Title'', width = 50, tx = 0, ty = 700\<rparr>], type = LYRIC\<rparr>]"
    by (simp add: mergeAdjacentTextItems_def classify_lines_def classify_title)
  then have "process_page [] [\<lparr>str = js ''Title'', width = 50, tx = 0, ty = 700\<rparr>] = Inr (js ''Title'' @ newline @ newline)"
    by (simp add: process_page_def mergeAdjacentTextItems_def page_loop_start render_line_def)
  then show ?thesis by simp
qed

lemma chord_page_lines:
  "classify_lines (group_loop [] (mergeAdjacentTextItems [\<lparr>str = js ''G'', width = 10, tx = 200, ty = 100\<rparr>, \<lparr>str = js ''Hello'', width = 50, tx = 0, ty = 71\<rparr>]))
   = [] @ \<lparr>y = 100, items = [\<lparr>str = js ''G'', width = 10, tx = 200, ty = 100\<rparr>], type = CHORD\<rparr>
        # \<lparr>y = 71, items = [\<lparr>str = js ''Hello'', width = 50, tx = 0, ty = 71\<rparr>], type = LYRIC\<rparr> # []"
proof -
  have "mergeAdjacentTextItems [\<lparr>str = js ''G'', width = 10, tx = 200, ty = 100\<rparr>, \<lparr>str = js ''Hello'', width = 50, tx = 0, ty = 71\<rparr>] = [\<lparr>str = js ''Hello'', width = 50, tx = 0, ty = 71\<rparr>, \<lparr>str = js ''G'', width = 10, tx = 200, ty = 100\<rparr>]"
    by (simp add: mergeAdjacentTextItems_def lengthOr1_def js_def)
  then show ?thesis
    by (simp add: classify_lines_def classify_G classify_hello)
qed

lemma lyric_hello:
  "lyric_loop [] [] None [\<lparr>str = js ''Hello'', width = 50, tx = 0, ty = 71\<rparr>] = (js ''Hello'', [0, 10, 20, 30, 40])"
  by (simp add: js_def lengthOr1_def upt_conv_Cons)

lemma cursor_off_end: "advance_cursor [0, 10, 20, 30, 40] 0 200 = None"
  by (subst advance_cursor.simps, simp)+

text \<open>
  C2. Take any document and any point of its extraction at which the cursor runs off
  the end of \<open>indexToXMap\<close>: the pages \<open>pre\<close> before have been assembled into
  \<open>fullText\<close>; on the current page, with classified lines \<open>ls\<close>, the lines above
  index \<open>i\<close> have been assembled into \<open>pageText\<close> and lines \<open>i\<close> and \<open>i + 1\<close> are a
  couplet; the chords \<open>cpre\<close> of the couplet have been dealt with, leaving the cursor at
  \<open>cursor\<close>; and for the next chord \<open>(chordText, x)\<close> the cursor reaches the end before
  an entry \<open>\<ge> x\<close> is found. Then the extraction of the whole document fails with the
  error that carries that chord's text, and returns no text at all: what had been
  assembled is dropped.
\<close>

theorem unplaceable_chord_aborts:
  assumes pre: "extract_loop [] pre = Inr fullText"
    and page: "rawItems \<noteq> []"
      "classify_lines (group_loop [] (mergeAdjacentTextItems rawItems)) = ls"
    and above: "page_loop (take i ls) 0 {} [] = Inr pageText"
    and couplet: "isPair ls i"
    and lyric: "lyric_loop [] [] None (items (ls ! (i + 1))) = (lyricString, indexToXMap)"
    and chords: "map (\<lambda>item. (str item, tx item)) (items (ls ! i)) = cpre @ (chordText, x) # cpost"
    and placed: "chord_loop indexToXMap (replicate (length lyricString) (js '' '')) 0 cpre
                   = Inr (buf, cursor)"
    and off_end: "advance_cursor indexToXMap cursor x = None"
  shows "extractTextFromPdf (pre @ rawItems # post) = Inl (PlacementError chordText)
         \<and> (\<forall>t. extractTextFromPdf (pre @ rawItems # post) \<noteq> Inr t)"
proof -
  from couplet have len: "i + 1 < length ls"
    and sc: "spec_couplet (ls ! i) (ls ! (i + 1))"
    by (simp_all add: isPair_spec)
  have "ls = take i ls @ drop i ls" by simp
  also have "drop i ls = ls ! i # drop (Suc i) ls"
    using len by (simp add: Cons_nth_drop_Suc)
  also have "drop (Suc i) ls = ls ! (i + 1) # drop (Suc (Suc i)) ls"
    using len by (simp add: Cons_nth_drop_Suc)
  finally have split: "ls = take i ls @ ls ! i # ls ! (i + 1) # drop (Suc (Suc i)) ls" .
  show ?thesis
  proof (rule placement_error_propagates [OF pre page(1) _ _ sc lyric chords placed off_end])
    show "classify_lines (group_loop [] (mergeAdjacentTextItems rawItems))
        = take i ls @ ls ! i # ls ! (i + 1) # drop (Suc (Suc i)) ls"
      using page(2) split by simp
    show "spec_assemble (take i ls) = Inr pageText"
      using above by (simp add: page_loop_start)
  qed
qed

text \<open>
  The scenario of the specification: a first page with the line \<open>Title\<close>; on the second
  page the lyric \<open>Hello\<close> covers x from 0 to 50 and the chord \<open>G\<close> stands at x = 200.
\<close>

theorem unplaceable_chord_aborts_witness:
  "extractTextFromPdf ([[\<lparr>str = js ''Title'', width = 50, tx = 0, ty = 700\<rparr>]] @ [\<lparr>str = js ''G'', width = 10, tx = 200, ty = 100\<rparr>, \<lparr>str = js ''Hello'', width = 50, tx = 0, ty = 71\<rparr>] # [])
     = Inl (PlacementError (js ''G''))
   \<and> (\<forall>t. extractTextFromPdf ([[\<lparr>str = js ''Title'', width = 50, tx = 0, ty = 700\<rparr>]] @ [\<lparr>str = js ''G'', width = 10, tx = 200, ty = 100\<rparr>, \<lparr>str = js ''Hello'', width = 50, tx = 0, ty = 71\<rparr>] # []) \<noteq> Inr t)"
proof (rule unplaceable_chord_aborts [where i = 0 and cpre = "[]" and cpost = "[]" and x = 200
      and pageText = "[]" and buf = "replicate (length (js ''Hello'')) (js '' '')"
      and cursor = 0
      and ls = "[\<lparr>y = 100, items = [\<lparr>str = js ''G'', width = 10, tx = 200, ty = 100\<rparr>], type = CHORD\<rparr>,
                 \<lparr>y = 71, items = [\<lparr>str = js ''Hello'', width = 50, tx = 0, ty = 71\<rparr>], type = LYRIC\<rparr>]"])
  show "extract_loop [] [[\<lparr>str = js ''Title'', width = 50, tx = 0, ty = 700\<rparr>]] = Inr (js ''Title'' @ newline @ newline)"
    by (rule title_page)
  show "[\<lparr>str = js ''G'', width = 10, tx = 200, ty = 100\<rparr>, \<lparr>str = js ''Hello'', width = 50, tx = 0, ty = 71\<rparr>] \<noteq> []"
    by simp
  show "classify_lines (group_loop [] (mergeAdjacentTextItems [\<lparr>str = js ''G'', width = 10, tx = 200, ty = 100\<rparr>, \<lparr>str = js ''Hello'', width = 50, tx = 0, ty = 71\<rparr>]))
   = [\<lparr>y = 100, items = [\<lparr>str = js ''G'', width = 10, tx = 200, ty = 100\<rparr>], type = CHORD\<rparr>,
      \<lparr>y = 71, items = [\<lparr>str = js ''Hello'', width = 50, tx = 0, ty = 71\<rparr>], type = LYRIC\<rparr>]"
    using chord_page_lines by simp
  show "page_loop (take 0 [\<lparr>y = 100, items = [\<lparr>str = js ''G'', width = 10, tx = 200, ty = 100\<rparr>], type = CHORD\<rparr>,
                 \<lparr>y = 71, items = [\<lparr>str = js ''Hello'', width = 50, tx = 0, ty = 71\<rparr>], type = LYRIC\<rparr>]) 0 {} [] = Inr []"
    by (simp add: page_loop_start)
  show "isPair [\<lparr>y = 100, items = [\<lparr>str = js ''G'', width = 10, tx = 200, ty = 100\<rparr>], type = CHORD\<rparr>,
                 \<lparr>y = 71, items = [\<lparr>str = js ''Hello'', width = 50, tx = 0, ty = 71\<rparr>], type = LYRIC\<rparr>] 0"
    by (simp add: isPair_def)
  show "lyric_loop [] [] None (items ([\<lparr>y = 100, items = [\<lparr>str = js ''G'', width = 10, tx = 200, ty = 100\<rparr>], type = CHORD\<rparr>,
                 \<lparr>y = 71, items = [\<lparr>str = js ''Hello'', width = 50, tx = 0, ty = 71\<rparr>], type = LYRIC\<rparr>] ! (0 + 1)))
          = (js ''Hello'', [0, 10, 20, 30, 40])"
    using lyric_hello by simp
  show "map (\<lambda>item. (str item, tx item)) (items ([\<lparr>y = 100, items = [\<lparr>str = js ''G'', width = 10, tx = 200, ty = 100\<rparr>], type = CHORD\<rparr>,
                 \<lparr>y = 71, items = [\<lparr>str = js ''Hello'', width = 50, tx = 0, ty = 71\<rparr>], type = LYRIC\<rparr>] ! 0))
          = [] @ (js ''G'', 200) # []"
    by simp
  show "chord_loop [0, 10, 20, 30, 40] (replicate (length (js ''Hello'')) (js '' '')) 0 []
          = Inr (replicate (length (js ''Hello'')) (js '' ''), 0)"
    by simp
  show "advance_cursor [0, 10, 20, 30, 40] 0 200 = None"
    by (rule cursor_off_end)
qed

section \<open>Properties of the normalization pass\<close>

lemma sublist_Cons_Cons:
  "sublist (a # as) (c # cs) \<longleftrightarrow> prefix (a # as) (c # cs) \<or> sublist (a # as) cs"
  by (rule sublist_Cons_right)

lemma not_sublist_trans:
  "\<not> sublist p t \<Longrightarrow> sublist u t \<Longrightarrow> \<not> sublist p u"
  using sublist_order.order_trans by blast

subsection \<open>The first replacement\<close>

lemma strip_head:
  "prefix [10] (strip_space_newline (d # cs)) \<Longrightarrow> d = 10 \<or> (d = 32 \<and> prefix [10] cs)"
  by (cases cs) (auto split: if_splits)

lemma strip_no_space_newline:
  "\<not> sublist [32, 32, 10] s \<Longrightarrow> \<not> sublist [32, 10] (strip_space_newline s)"
proof (induction s rule: strip_space_newline.induct)
  case (1 c d cs)
  show ?case
  proof (cases "c = 32 \<and> d = 10")
    case True
    with 1 show ?thesis by (simp add: sublist_Cons_Cons)
  next
    case False
    from 1 False have ih: "\<not> sublist [32, 10] (strip_space_newline (d # cs))"
      by (simp add: sublist_Cons_Cons)
    have "\<not> (c = 32 \<and> prefix [10] (strip_space_newline (d # cs)))"
    proof
      assume a: "c = 32 \<and> prefix [10] (strip_space_newline (d # cs))"
      then have "d = 10 \<or> (d = 32 \<and> prefix [10] cs)" using strip_head by blast
      with a False have "d = 32 \<and> prefix [10] cs" by simp
      with a have "prefix [32, 32, 10] (c # d # cs)" by simp
      with "1.prems" show False by (simp add: sublist_Cons_Cons)
    qed
    with ih False show ?thesis by (auto simp: sublist_Cons_Cons)
  qed
qed (simp_all add: sublist_Cons_Cons)

lemma strip_fixed:
  "\<not> sublist [32, 10] u \<Longrightarrow> strip_space_newline u = u"
  by (induction u rule: strip_space_newline.induct) (auto simp: sublist_Cons_Cons)

subsection \<open>The second replacement\<close>

lemma collapse_head: "prefix [a] (collapse_newlines t) \<longleftrightarrow> prefix [a] t"
  by (cases t rule: collapse_newlines.cases) auto

lemma collapse_head2: "prefix [10, 10] (collapse_newlines t) \<Longrightarrow> prefix [10, 10] t"
proof (cases t rule: collapse_newlines.cases)
  case (1 c d e cs)
  assume p: "prefix [10, 10] (collapse_newlines t)"
  show ?thesis
  proof (cases "c = 10 \<and> d = 10 \<and> e = 10")
    case True
    with 1 show ?thesis by simp
  next
    case False
    with p 1 have "c = 10" and "prefix [10] (collapse_newlines (d # e # cs))" by simp_all
    then have "c = 10" and "prefix [10] (d # e # cs)" by (simp_all only: collapse_head)
    with 1 show ?thesis by simp
  qed
qed auto

lemma collapse_keeps_no_space_newline:
  "\<not> sublist [32, 10] t \<Longrightarrow> \<not> sublist [32, 10] (collapse_newlines t)"
proof (induction t rule: collapse_newlines.induct)
  case (1 c d e cs)
  show ?case
  proof (cases "c = 10 \<and> d = 10 \<and> e = 10")
    case True
    have "sublist (dropWhile (\<lambda>x. x = 10) cs) (c # d # e # cs)"
      by (intro suffix_imp_sublist suffix_ConsI suffix_dropWhile)
    with "1.prems" have "\<not> sublist [32, 10] (dropWhile (\<lambda>x. x = 10) cs)"
      by (rule not_sublist_trans)
    with "1.IH"(1) True show ?thesis by (simp add: sublist_Cons_Cons)
  next
    case False
    from "1.prems" have tl: "\<not> sublist [32, 10] (d # e # cs)" and hd: "\<not> (c = 32 \<and> d = 10)"
      by (auto simp: sublist_Cons_Cons)
    from "1.IH"(2) False tl have ih: "\<not> sublist [32, 10] (collapse_newlines (d # e # cs))"
      by simp
    have "\<not> (c = 32 \<and> prefix [10] (collapse_newlines (d # e # cs)))"
      using hd by (simp add: collapse_head)
    moreover have "collapse_newlines (c # d # e # cs) = c # collapse_newlines (d # e # cs)"
      using False by auto
    ultimately show ?thesis using ih by (simp add: sublist_Cons_Cons)
  qed
qed (simp_all add: sublist_Cons_Cons)

lemma dropWhile_head: "\<not> prefix [10] (dropWhile (\<lambda>x. x = (10::nat)) cs)"
proof
  assume "prefix [10] (dropWhile (\<lambda>x. x = (10::nat)) cs)"
  then obtain r where r: "dropWhile (\<lambda>x. x = (10::nat)) cs = 10 # r"
    by (auto simp: prefix_def)
  then have "dropWhile (\<lambda>x. x = (10::nat)) cs \<noteq> []" by simp
  then have "hd (dropWhile (\<lambda>x. x = (10::nat)) cs) \<noteq> 10" by (rule hd_dropWhile)
  with r show False by simp
qed

lemma prefix_two_one: "prefix [a, b] t \<Longrightarrow> prefix [a] t"
  by (auto simp: prefix_def)

lemma collapse_no_three_newlines: "\<not> sublist [10, 10, 10] (collapse_newlines t)"
proof (induction t rule: collapse_newlines.induct)
  case (1 c d e cs)
  show ?case
  proof (cases "c = 10 \<and> d = 10 \<and> e = 10")
    case True
    have "\<not> prefix [10] (collapse_newlines (dropWhile (\<lambda>x. x = 10) cs))"
      by (simp only: collapse_head dropWhile_head not_False_eq_True)
    moreover from this have "\<not> prefix [10, 10] (collapse_newlines (dropWhile (\<lambda>x. x = 10) cs))"
      by (auto dest: prefix_two_one)
    ultimately show ?thesis using "1.IH"(1) True by (simp add: sublist_Cons_Cons)
  next
    case False
    have "\<not> (c = 10 \<and> prefix [10, 10] (collapse_newlines (d # e # cs)))"
    proof
      assume a: "c = 10 \<and> prefix [10, 10] (collapse_newlines (d # e # cs))"
      then have "prefix [10, 10] (d # e # cs)" using collapse_head2 by blast
      with a False show False by simp
    qed
    moreover have "collapse_newlines (c # d # e # cs) = c # collapse_newlines (d # e # cs)"
      using False by auto
    moreover have "\<not> sublist [10, 10, 10] (collapse_newlines (d # e # cs))"
      using "1.IH"(2) False by blast
    ultimately show ?thesis by (simp add: sublist_Cons_Cons)
  qed
qed (simp_all add: sublist_Cons_Cons)

lemma collapse_fixed:
  "\<not> sublist [10, 10, 10] u \<Longrightarrow> collapse_newlines u = u"
  by (induction u rule: collapse_newlines.induct) (auto simp: sublist_Cons_Cons)

subsection \<open>Trimming\<close>

lemma trimEnd_prefix: "prefix (trimEnd v) v"
proof -
  have "rev (dropWhile isWhiteSpace (rev v)) @ rev (takeWhile isWhiteSpace (rev v)) = v"
    by (metis rev_append rev_rev_ident takeWhile_dropWhile_id)
  then show ?thesis unfolding trimEnd_def by (metis prefixI)
qed

lemma trim_sublist: "sublist (trim t) t"
proof -
  have "sublist (trim t) (trimStart t)"
    unfolding trim_def by (intro prefix_imp_sublist trimEnd_prefix)
  moreover have "sublist (trimStart t) t"
    unfolding trimStart_def by (intro suffix_imp_sublist suffix_dropWhile)
  ultimately show ?thesis by (rule sublist_order.order_trans)
qed

lemma trimEnd_idem: "trimEnd (trimEnd v) = trimEnd v"
  by (simp add: trimEnd_def)

lemma trimStart_trim: "trimStart (trim t) = trim t"
proof (cases "trim t = []")
  case True
  then show ?thesis by (simp add: trimStart_def)
next
  case False
  let ?v = "trimStart t"
  have p: "prefix (trim t) ?v" unfolding trim_def by (rule trimEnd_prefix)
  with False have "?v \<noteq> []" by auto
  then have "\<not> isWhiteSpace (hd ?v)"
    unfolding trimStart_def by (rule hd_dropWhile)
  moreover from p False have "hd (trim t) = hd ?v"
    by (auto simp: prefix_def)
  ultimately show ?thesis
    by (simp add: trimStart_def dropWhile_eq_self_iff)
qed

lemma trim_idem: "trim (trim t) = trim t"
proof -
  have "trim (trim t) = trimEnd (trim t)"
    by (simp add: trim_def [of "trim t"] trimStart_trim)
  also have "\<dots> = trim t"
    by (simp add: trim_def trimEnd_idem)
  finally show ?thesis .
qed

subsection \<open>The whole pass\<close>

text \<open>
  C8. The normalization pass is idempotent on every text in which no
  newline has two (or more) spaces directly before it: applying it twice gives what
  applying it once gives. (The first replacement removes one space before a newline, not
  all of them.)
\<close>

theorem normalize_idempotent:
  assumes "\<not> sublist [32, 32, 10] s"
  shows "normalize_text (normalize_text s) = normalize_text s"
proof -
  let ?c = "collapse_newlines (strip_space_newline s)"
  let ?u = "trim ?c"
  have "\<not> sublist [32, 10] ?c"
    using assms by (intro collapse_keeps_no_space_newline strip_no_space_newline)
  then have "\<not> sublist [32, 10] ?u"
    using trim_sublist by (rule not_sublist_trans)
  then have s: "strip_space_newline ?u = ?u"
    by (rule strip_fixed)
  have "\<not> sublist [10, 10, 10] ?c"
    by (rule collapse_no_three_newlines)
  then have "\<not> sublist [10, 10, 10] ?u"
    using trim_sublist by (rule not_sublist_trans)
  then have c: "collapse_newlines ?u = ?u"
    by (rule collapse_fixed)
  show ?thesis
    unfolding normalize_text_def s c by (rule trim_idem)
qed

theorem normalize_idempotent_witness:
  "\<not> sublist [32, 32, 10] (js ''a '' @ [10, 10, 10, 10] @ js ''b '' @ [10])
   \<and> normalize_text (js ''a '' @ [10, 10, 10, 10] @ js ''b '' @ [10]) = js ''a'' @ [10, 10] @ js ''b''
   \<and> normalize_text (normalize_text (js ''a '' @ [10, 10, 10, 10] @ js ''b '' @ [10]))
       = normalize_text (js ''a '' @ [10, 10, 10, 10] @ js ''b '' @ [10])"
proof -
  have h: "\<not> sublist [32, 32, 10] (js ''a '' @ [10, 10, 10, 10] @ js ''b '' @ [10])"
    by (simp add: js_def sublist_Cons_Cons)
  have "normalize_text (js ''a '' @ [10, 10, 10, 10] @ js ''b '' @ [10]) = js ''a'' @ [10, 10] @ js ''b''"
    by (simp add: normalize_text_def js_def trim_defs)
  with h normalize_idempotent [OF h] show ?thesis by simp
qed

text \<open>
  Stated for every string, as the specification does, idempotence fails: in \<open>a\<close>, two spaces,
  newline, \<open>b\<close> the first pass removes one of the two spaces and the second pass the
  other.
\<close>

theorem normalize_not_idempotent:
  "normalize_text (normalize_text (js ''a  '' @ [10] @ js ''b''))
     \<noteq> normalize_text (js ''a  '' @ [10] @ js ''b'')"
proof -
  have 1: "normalize_text (js ''a  '' @ [10] @ js ''b'') = js ''a '' @ [10] @ js ''b''"
    by (simp add: normalize_text_def js_def trim_defs)
  have 2: "normalize_text (js ''a '' @ [10] @ js ''b'') = js ''a'' @ [10] @ js ''b''"
    by (simp add: normalize_text_def js_def trim_defs)
  show ?thesis
    unfolding 1 2 by (simp add: js_def)
qed

section \<open>Reach of the missing identifier\<close>

text \<open>
  The \<open>ReferenceError\<close> of the write loop is not confined to special inputs. A chord
  line with any item of non-empty text makes the couplet throw (that error, or the
  placement error of an earlier or the same chord), and every line that \<open>classifyLine\<close>
  labels Chord has such an item. So the paired branch never completes on a line that the
  classifier itself labelled Chord.
\<close>

lemma chord_loop_text_throws:
  "\<exists>c \<in> set chords. fst c \<noteq> [] \<Longrightarrow> \<exists>e. chord_loop m buf cursor chords = Inl e"
proof (induction chords arbitrary: buf cursor)
  case Nil
  then show ?case by simp
next
  case (Cons c chords)
  obtain chordText x where c: "c = (chordText, x)" by (cases c)
  show ?case
  proof (cases "advance_cursor m cursor x")
    case None
    then show ?thesis by (simp add: c)
  next
    case (Some cursor1)
    show ?thesis
    proof (cases "chordText = []")
      case False
      with Some show ?thesis by (simp add: c write_chord_def)
    next
      case True
      with Cons.prems c have "\<exists>c \<in> set chords. fst c \<noteq> []" by simp
      then obtain e where "chord_loop m buf cursor1 chords = Inl e"
        using Cons.IH by blast
      with Some True show ?thesis by (simp add: c write_chord_def)
    qed
  qed
qed

lemma couplet_with_text_throws:
  assumes "\<exists>item \<in> set chordItems. str item \<noteq> []"
  shows "\<exists>e. reconstructCouplet chordItems lyricItems = Inl e"
proof -
  obtain lyricString indexToXMap where l: "lyric_loop [] [] None lyricItems = (lyricString, indexToXMap)"
    by (cases "lyric_loop [] [] None lyricItems")
  from assms have "\<exists>c \<in> set (map (\<lambda>item. (str item, tx item)) chordItems). fst c \<noteq> []"
    by auto
  then obtain e where "chord_loop indexToXMap (replicate (length lyricString) (js '' '')) 0
      (map (\<lambda>item. (str item, tx item)) chordItems) = Inl e"
    using chord_loop_text_throws by blast
  then show ?thesis by (simp add: reconstructCouplet_def l)
qed

lemma trim_Nil: "trim [] = []"
  by (simp add: trim_def trimEnd_def trimStart_def)

lemma chord_line_has_text:
  assumes "classifyLine lineItems = CHORD"
  shows "\<exists>item \<in> set lineItems. str item \<noteq> []"
proof -
  from assms have "tokens_of lineItems \<noteq> []"
    by (auto simp: classifyLine_def split: if_splits)
  then obtain t where "t \<in> set (tokens_of lineItems)"
    by (cases "tokens_of lineItems") auto
  then obtain item where "item \<in> set lineItems" and "trim (str item) \<noteq> []"
    by (auto simp: tokens_of_def)
  then show ?thesis using trim_Nil by metis
qed

lemma classified_couplet_throws:
  "classifyLine chordItems = CHORD \<Longrightarrow> \<exists>e. reconstructCouplet chordItems lyricItems = Inl e"
  by (intro couplet_with_text_throws chord_line_has_text)

section \<open>The rounding at work\<close>

text \<open>
  Four inputs on which the decision of the code depends on the rounding: the double
  arithmetic decides one way, the exact arithmetic on the same doubles the other way. The
  definitions above follow the double arithmetic.
\<close>


lemma binade_eq:
  assumes "2 powr (of_int b) \<le> \<bar>x\<bar>" and "\<bar>x\<bar> < 2 powr (of_int (b + 1))" and "- 1022 \<le> b"
  shows "binade x = b"
proof -
  have pos: "0 < \<bar>x\<bar>"
    using assms(1) by (smt (verit) powr_gt_zero)
  then have "of_int b \<le> log 2 \<bar>x\<bar>" and "log 2 \<bar>x\<bar> < of_int (b + 1)"
    using assms(1,2) by (simp_all add: le_log_iff log_less_iff)
  then have "\<lfloor>log 2 \<bar>x\<bar>\<rfloor> = b" by linarith
  with assms(3) show ?thesis by (simp add: binade_def)
qed

lemma fl_in_binade:
  assumes "2 powr (of_int b) \<le> \<bar>x\<bar>" and "\<bar>x\<bar> < 2 powr (of_int (b + 1))" and "- 1022 \<le> b"
  shows "fl x = of_int (round_even (x / 2 powr (of_int (b - 52)))) * 2 powr (of_int (b - 52))"
  using binade_eq [OF assms] by (simp add: fl_times quantum_def)

lemma powr_neg_num: "(2::real) powr (- numeral n) = 1 / 2 ^ numeral n"
  by (simp add: powr_minus inverse_eq_divide)

lemmas fl_eval = round_even_def powr_neg_num Let_def

text \<open>The doubles nearest to 0.1, 0.2, 0.4, 0.7, 0.9 and 30.2.\<close>

lemma d01: "fl (1 / 10) = 3602879701896397 / 2 ^ 55"
  by (subst fl_in_binade [where b = "- 4"]) (simp_all add: fl_eval)

lemma d02: "fl (2 / 10) = 3602879701896397 / 2 ^ 54"
  by (subst fl_in_binade [where b = "- 3"]) (simp_all add: fl_eval)

lemma d04: "fl (4 / 10) = 3602879701896397 / 2 ^ 53"
  by (subst fl_in_binade [where b = "- 2"]) (simp_all add: fl_eval)

lemma d07: "fl (7 / 10) = 6305039478318694 / 2 ^ 53"
  by (subst fl_in_binade [where b = "- 1"]) (simp_all add: fl_eval)

lemma d09: "fl (9 / 10) = 8106479329266893 / 2 ^ 53"
  by (subst fl_in_binade [where b = "- 1"]) (simp_all add: fl_eval)

lemma d302: "fl (302 / 10) = 8500544296661811 / 2 ^ 48"
  by (subst fl_in_binade [where b = 4]) (simp_all add: fl_eval)

text \<open>
  \<open>30.2 - 0.2\<close>: the exact difference of the two doubles is below 30, the double
  subtraction gives 30, and the two lines are not a couplet.
\<close>

lemma sub_302_02: "fl (fl (302 / 10) - fl (2 / 10)) = 30"
  unfolding d302 d02
  by (subst fl_in_binade [where b = 4]) (simp_all add: fl_eval)

lemma pair_rounding_example:
  "\<bar>fl (302 / 10) - fl (2 / 10)\<bar> < 30
   \<and> \<not> isPair [\<lparr>y = fl (302 / 10), items = cs, type = CHORD\<rparr>,
                 \<lparr>y = fl (2 / 10), items = ws, type = LYRIC\<rparr>] 0"
proof
  show "\<bar>fl (302 / 10) - fl (2 / 10)\<bar> < 30"
    unfolding d302 d02 by simp
  show "\<not> isPair [\<lparr>y = fl (302 / 10), items = cs, type = CHORD\<rparr>,
                 \<lparr>y = fl (2 / 10), items = ws, type = LYRIC\<rparr>] 0"
    by (simp add: isPair_def sub_302_02 [simplified])
qed

text \<open>
  \<open>0.9 - (0 + 0.2)\<close> is the double 0.7, which does not exceed the right token's width
  0.7: no space, although the exact difference of the doubles is larger.
\<close>

lemma sub_09_02: "fl (fl (9 / 10) - fl (2 / 10)) = fl (7 / 10)"
  unfolding d09 d02 d07
  by (subst fl_in_binade [where b = "- 1"]) (simp_all add: fl_eval)

lemma render_rounding_example:
  "fl (7 / 10) < fl (9 / 10) - fl (2 / 10)
   \<and> render_line [\<lparr>str = js ''A'', width = fl (2 / 10), tx = 0, ty = 50\<rparr>,
                    \<lparr>str = js ''B'', width = fl (7 / 10), tx = fl (9 / 10), ty = 50\<rparr>]
       = js ''AB''"
proof
  show "fl (7 / 10) < fl (9 / 10) - fl (2 / 10)"
    unfolding d09 d02 d07 by simp
  have "fl (fl (9 / 10) - fl (fl (2 / 10))) = fl (7 / 10)"
    by (simp only: fl_idem sub_09_02)
  moreover have "fl (fl (7 / 10)) = fl (7 / 10)"
    by (rule fl_idem)
  ultimately show "render_line [\<lparr>str = js ''A'', width = fl (2 / 10), tx = 0, ty = 50\<rparr>,
                    \<lparr>str = js ''B'', width = fl (7 / 10), tx = fl (9 / 10), ty = 50\<rparr>]
       = js ''AB''"
    by (simp add: render_line_def lengthOr1_def js_def)
qed

text \<open>
  Fragment \<open>a\<close> at x = 0.1 with width 0.2, then fragment \<open>b\<close> at x = 0.4: the gap
  \<open>0.4 - (0.1 + 0.2)\<close> is the double just below 0.1, the threshold \<open>0.2 * 0.5\<close> is 0.1,
  and the two merge; on the exact values of the doubles gap and threshold are equal.
\<close>

lemma add_01_02: "fl (fl (1 / 10) + fl (2 / 10)) = 5404319552844596 / 2 ^ 54"
  unfolding d01 d02
  by (subst fl_in_binade [where b = "- 2"]) (simp_all add: fl_eval)

lemma gap_04: "fl (fl (4 / 10) - 5404319552844596 / 2 ^ 54) = 3602879701896396 / 2 ^ 55"
  unfolding d04
  by (subst fl_in_binade [where b = "- 4"]) (simp_all add: fl_eval)

lemma half_02: "fl (fl (2 / 10) * 0.5) = fl (1 / 10)"
  unfolding d02 d01
  by (subst fl_in_binade [where b = "- 4"]) (simp_all add: fl_eval)

lemma merge_rounding_example:
  "fl (4 / 10) - (fl (1 / 10) + fl (2 / 10)) = fl (2 / 10) * 0.5
   \<and> map str (merge_loop [] \<lparr>str = js ''a'', width = fl (2 / 10), tx = fl (1 / 10), ty = 50\<rparr>
                  [\<lparr>str = js ''b'', width = 0, tx = fl (4 / 10), ty = 50\<rparr>])
       = [js ''ab'']"
proof
  show "fl (4 / 10) - (fl (1 / 10) + fl (2 / 10)) = fl (2 / 10) * 0.5"
    unfolding d01 d02 d04 by simp
  have g: "fl (fl (4 / 10) - fl (fl (1 / 10) + fl (2 / 10))) = 3602879701896396 / 2 ^ 55"
    by (simp only: add_01_02 gap_04)
  have t: "fl (fl (fl (2 / 10)) * 0.5) = 3602879701896397 / 2 ^ 55"
    by (simp only: fl_idem half_02 d01)
  show "map str (merge_loop [] \<lparr>str = js ''a'', width = fl (2 / 10), tx = fl (1 / 10), ty = 50\<rparr>
                  [\<lparr>str = js ''b'', width = 0, tx = fl (4 / 10), ty = 50\<rparr>])
       = [js ''ab'']"
  proof -
    have c: "- 2 \<le> fl (fl (4 / 10) - fl (fl (1 / 10) + fl (2 / 10)))
        \<and> fl (fl (4 / 10) - fl (fl (1 / 10) + fl (2 / 10))) < fl (fl (fl (2 / 10)) * 0.5)"
      unfolding g t by simp
    show ?thesis
      by (simp add: Let_def lengthOr1_def js_def c [simplified])
  qed
qed

text \<open>
  The lyric \<open>yes\<close> at x = 0 with width 6.3 under the chord \<open>G\<close> at x = 4.2: the
  average character width \<open>6.3 / 3\<close> is the double 2.1, the map entry of the last
  character \<open>0 + 2 * 2.1\<close> is the double 4.2, which is not below the chord's x, so the
  cursor stops there (and the write then throws); on the exact values the entry would be
  below 4.2 and the cursor would run off the end.
\<close>

lemma d63: "fl (63 / 10) = 7093169413108531 / 2 ^ 50"
  by (subst fl_in_binade [where b = 2]) (simp_all add: fl_eval)

lemma d42: "fl (42 / 10) = 4728779608739021 / 2 ^ 50"
  by (subst fl_in_binade [where b = 2]) (simp_all add: fl_eval)

lemma avg_63: "fl (fl (63 / 10) / 3) = 4728779608739021 / 2 ^ 51"
  unfolding d63
  by (subst fl_in_binade [where b = 1]) (simp_all add: fl_eval)

lemma twice_avg_63: "fl (2 * fl (fl (63 / 10) / 3)) = fl (42 / 10)"
  unfolding avg_63 d42
  by (subst fl_in_binade [where b = 2]) (simp_all add: fl_eval)

lemma lyric_rounding_example:
  "2 * (fl (63 / 10) / 3) < fl (42 / 10)
   \<and> reconstructCouplet [\<lparr>str = js ''G'', width = 10, tx = fl (42 / 10), ty = 100\<rparr>]
                          [\<lparr>str = js ''yes'', width = fl (63 / 10), tx = 0, ty = 90\<rparr>]
       = Inl (ReferenceError ''closestCharIndex'')"
proof
  show "2 * (fl (63 / 10) / 3) < fl (42 / 10)"
    unfolding d63 d42 by simp
  define a where "a = fl (fl (63 / 10) / 3)"
  define x where "x = fl (42 / 10)"
  have a: "fl a = a" unfolding a_def by (rule fl_idem)
  have x: "fl x = x" unfolding x_def by (rule fl_idem)
  have a2: "fl (2 * a) = x" unfolding a_def x_def by (rule twice_avg_63)
  have pos: "0 < x" "a < x"
    unfolding a_def x_def avg_63 d42 by simp_all
  have l: "lyric_loop [] [] None [\<lparr>str = js ''yes'', width = fl (63 / 10), tx = 0, ty = 90\<rparr>]
      = (js ''yes'', [0, a, x])"
    by (simp add: js_def lengthOr1_def upt_conv_Cons a_def [symmetric] a a2 x)
  have c: "advance_cursor [0, a, x] 0 x = Some 2"
    using pos by (subst advance_cursor.simps, simp)+
  show "reconstructCouplet [\<lparr>str = js ''G'', width = 10, tx = fl (42 / 10), ty = 100\<rparr>]
                          [\<lparr>str = js ''yes'', width = fl (63 / 10), tx = 0, ty = 90\<rparr>]
       = Inl (ReferenceError ''closestCharIndex'')"
    unfolding reconstructCouplet_def l x_def [symmetric]
    by (simp add: c write_chord_def js_def)
qed

end
